theory Spec2Isabelle
  imports Main "HOL-Library.Word"
begin

unbundle bit_operations_syntax

section \<open>Python values\<close>

text \<open>
  The converter of \<^verbatim>\<open>backend/json2mdb.py\<close> works on what \<^verbatim>\<open>json.load\<close> returns:
  \<^verbatim>\<open>None\<close>, \<^verbatim>\<open>bool\<close>, \<^verbatim>\<open>int\<close>, \<^verbatim>\<open>float\<close>, \<^verbatim>\<open>str\<close>, \<^verbatim>\<open>list\<close> and \<^verbatim>\<open>dict\<close> with \<^verbatim>\<open>str\<close> keys;
  its type tests also name \<^verbatim>\<open>datetime\<close>. A Python \<^verbatim>\<open>str\<close> is a sequence of code points, a
  Python \<^verbatim>\<open>int\<close> is unbounded, a Python \<^verbatim>\<open>float\<close> is an IEEE-754 double, kept as its 64 bits.
  A \<^verbatim>\<open>dict\<close> keeps insertion order, so it is an association list; a real \<^verbatim>\<open>dict\<close> has
  distinct keys (\<open>is_json\<close> below).
\<close>

type_synonym pystr = "nat list"

type_synonym pyfloat = "64 word"

definition ustr :: "string \<Rightarrow> pystr" where
  "ustr s = map of_char s"

datatype pydatetime = Datetime int int int int int int int "int option"

datatype pyval =
    PNone
  | PBool bool
  | PInt int
  | PFloat pyfloat
  | PStr pystr
  | PDatetime pydatetime
  | PList "pyval list"
  | PDict "(pystr \<times> pyval) list"

text \<open>The exceptions \<^verbatim>\<open>json.load\<close> can raise that are no \<^verbatim>\<open>JSONDecodeError\<close>: the bytes of the file
  are not UTF-8, an integer literal is longer than the interpreter converts, the nesting is
  deeper than the recursion limit. \<^verbatim>\<open>_load_json\<close> does not catch them; \<open>Propagated\<close> is such an
  exception leaving the converter.\<close>

datatype json_exception = UnicodeDecodeError | ValueError | RecursionError

datatype pyerror =
    RuntimeError pystr
  | AttributeError
  | TypeError
  | KeyError
  | FileNotFoundError
  | PyodbcError
  | Propagated json_exception

text \<open>Raising is \<open>Inl\<close>; \<open>ebind\<close> runs the next statement when the previous one returned.\<close>

definition ebind :: "pyerror + 'a \<Rightarrow> ('a \<Rightarrow> pyerror + 'b) \<Rightarrow> pyerror + 'b" where
  "ebind m f = (case m of Inl e \<Rightarrow> Inl e | Inr x \<Rightarrow> f x)"

text \<open>A generator consumed from left to right: the first raise ends it.\<close>

fun collect :: "(pyerror + 'a) list \<Rightarrow> pyerror + 'a list" where
  "collect [] = Inr []"
| "collect (m # ms) = ebind m (\<lambda>x. ebind (collect ms) (\<lambda>xs. Inr (x # xs)))"

subsection \<open>The string constants of the source\<close>

definition k_Communications :: pystr where
  "k_Communications = ustr ''Communications''"

definition k_metadata :: pystr where
  "k_metadata = ustr ''__metadata''"

definition k_results :: pystr where
  "k_results = ustr ''results''"

definition k_d :: pystr where
  "k_d = ustr ''d''"

definition YESNO :: pystr where
  "YESNO = ustr ''YESNO''"

definition INTEGER :: pystr where
  "INTEGER = ustr ''INTEGER''"

definition DOUBLE :: pystr where
  "DOUBLE = ustr ''DOUBLE''"

definition DATETIME :: pystr where
  "DATETIME = ustr ''DATETIME''"

definition TEXT255 :: pystr where
  "TEXT255 = ustr ''TEXT(255)''"

subsection \<open>Built-in operations the source uses\<close>

text \<open>\<^verbatim>\<open>float\<close> tests on the bits: zero of either sign, NaN, the two infinities.\<close>

definition float_is_zero :: "pyfloat \<Rightarrow> bool" where
  "float_is_zero x = (x AND 0x7FFFFFFFFFFFFFFF = 0)"

definition float_is_nan :: "pyfloat \<Rightarrow> bool" where
  "float_is_nan x = (x AND 0x7FFFFFFFFFFFFFFF > 0x7FF0000000000000)"

definition float_inf :: pyfloat where
  "float_inf = 0x7FF0000000000000"

definition float_neginf :: pyfloat where
  "float_neginf = 0xFFF0000000000000"

definition float_is_finite :: "pyfloat \<Rightarrow> bool" where
  "float_is_finite x = (x AND 0x7FFFFFFFFFFFFFFF < 0x7FF0000000000000)"

text \<open>Truth value testing, as \<^verbatim>\<open>if not data\<close> and \<^verbatim>\<open>if self.template_path\<close> apply it.\<close>

fun truthy :: "pyval \<Rightarrow> bool" where
  "truthy PNone = False"
| "truthy (PBool b) = b"
| "truthy (PInt i) = (i \<noteq> 0)"
| "truthy (PFloat x) = (\<not> float_is_zero x)"
| "truthy (PStr s) = (s \<noteq> [])"
| "truthy (PDatetime t) = True"
| "truthy (PList xs) = (xs \<noteq> [])"
| "truthy (PDict kvs) = (kvs \<noteq> [])"

text \<open>\<^verbatim>\<open>x.get(key, default)\<close>: only a \<^verbatim>\<open>dict\<close> has the method.\<close>

fun dict_get :: "pyval \<Rightarrow> pystr \<Rightarrow> pyval \<Rightarrow> pyerror + pyval" where
  "dict_get (PDict kvs) k dflt = Inr (case map_of kvs k of None \<Rightarrow> dflt | Some v \<Rightarrow> v)"
| "dict_get v k dflt = Inl AttributeError"

text \<open>\<^verbatim>\<open>x.items()\<close>: only a \<^verbatim>\<open>dict\<close> has the method.\<close>

fun dict_items :: "pyval \<Rightarrow> pyerror + (pystr \<times> pyval) list" where
  "dict_items (PDict kvs) = Inr kvs"
| "dict_items v = Inl AttributeError"

text \<open>\<^verbatim>\<open>for x in v\<close>: a list gives its elements, a dict its keys, a string its characters.\<close>

fun py_iter :: "pyval \<Rightarrow> pyerror + pyval list" where
  "py_iter (PList xs) = Inr xs"
| "py_iter (PDict kvs) = Inr (map (\<lambda>kv. PStr (fst kv)) kvs)"
| "py_iter (PStr s) = Inr (map (\<lambda>c. PStr [c]) s)"
| "py_iter v = Inl TypeError"

fun is_substr :: "pystr \<Rightarrow> pystr \<Rightarrow> bool" where
  "is_substr sub [] = (sub = [])"
| "is_substr sub (c # cs) = (take (length sub) (c # cs) = sub \<or> is_substr sub cs)"

text \<open>\<^verbatim>\<open>key in v\<close> for a string \<open>key\<close>: key membership in a dict, element equality in a
  list, substring test in a string, \<^verbatim>\<open>TypeError\<close> on anything that is no container.\<close>

fun str_in :: "pystr \<Rightarrow> pyval \<Rightarrow> pyerror + bool" where
  "str_in k (PDict kvs) = Inr (k \<in> set (map fst kvs))"
| "str_in k (PList xs) = Inr (PStr k \<in> set xs)"
| "str_in k (PStr s) = Inr (is_substr k s)"
| "str_in k v = Inl TypeError"

text \<open>\<^verbatim>\<open>v[key]\<close> for a string \<open>key\<close>: a list or a string wants an integer index.\<close>

fun str_subscript :: "pyval \<Rightarrow> pystr \<Rightarrow> pyerror + pyval" where
  "str_subscript (PDict kvs) k = (case map_of kvs k of None \<Rightarrow> Inl KeyError | Some v \<Rightarrow> Inr v)"
| "str_subscript v k = Inl TypeError"

text \<open>\<^verbatim>\<open>s.replace(old, new)\<close> for a pattern \<open>old\<close> of one character.\<close>

definition replace_char :: "nat \<Rightarrow> pystr \<Rightarrow> pystr \<Rightarrow> pystr" where
  "replace_char old new s = concat (map (\<lambda>c. if c = old then new else [c]) s)"

fun isinstance_bool :: "pyval \<Rightarrow> bool" where
  "isinstance_bool (PBool b) = True"
| "isinstance_bool v = False"

text \<open>\<^verbatim>\<open>bool\<close> is a subclass of \<^verbatim>\<open>int\<close>.\<close>

fun isinstance_int :: "pyval \<Rightarrow> bool" where
  "isinstance_int (PInt i) = True"
| "isinstance_int (PBool b) = True"
| "isinstance_int v = False"

fun isinstance_float :: "pyval \<Rightarrow> bool" where
  "isinstance_float (PFloat x) = True"
| "isinstance_float v = False"

fun isinstance_str :: "pyval \<Rightarrow> bool" where
  "isinstance_str (PStr s) = True"
| "isinstance_str v = False"

fun isinstance_datetime :: "pyval \<Rightarrow> bool" where
  "isinstance_datetime (PDatetime t) = True"
| "isinstance_datetime v = False"

section \<open>Library functions\<close>

text \<open>
  What the standard library and the database driver compute is not code of the converter.
  \<^item> \<open>fromisoformat\<close>: whether \<^verbatim>\<open>datetime.fromisoformat\<close> returns (rather than raising
    \<^verbatim>\<open>ValueError\<close>) on a text;
  \<^item> \<open>json_load\<close>: what \<^verbatim>\<open>json.load\<close> does on the content of a file: it returns a value,
    raises \<^verbatim>\<open>JSONDecodeError\<close>, or raises another exception;
  \<^item> \<open>float_repr\<close>: \<^verbatim>\<open>float.__repr__\<close> on a finite double;
  \<^item> \<open>float_of_str\<close>: \<^verbatim>\<open>float\<close> on the text of a number;
  \<^item> \<open>odbc_connect\<close>: \<^verbatim>\<open>pyodbc.connect\<close> on a connection string, \<open>Some\<close> of the driver's
    message when it raises \<^verbatim>\<open>pyodbc.Error\<close>;
  \<^item> \<open>odbc_rejects\<close>: whether the store raises on a statement.
\<close>

datatype stmt =
    Execute pystr
  | ExecuteMany pystr "pyval list list"
  | Commit

datatype load_result = Loaded pyval | JSONDecodeError | Raised json_exception

record pylib =
  fromisoformat :: "pystr \<Rightarrow> bool"
  json_load :: "pystr \<Rightarrow> load_result"
  float_repr :: "pyfloat \<Rightarrow> pystr"
  float_of_str :: "pystr \<Rightarrow> pyfloat"
  odbc_connect :: "pystr \<Rightarrow> pystr option"
  odbc_rejects :: "stmt \<Rightarrow> bool"

section \<open>Schema Inferrer\<close>

text \<open>\<^verbatim>\<open>_is_datetime\<close>: a \<^verbatim>\<open>datetime\<close>, or a \<^verbatim>\<open>str\<close> that \<^verbatim>\<open>fromisoformat\<close> accepts once every
  \<^verbatim>\<open>Z\<close> is replaced by \<^verbatim>\<open>+00:00\<close>.\<close>

definition is_datetime :: "pylib \<Rightarrow> pyval \<Rightarrow> bool" where
  "is_datetime lib v =
     (if isinstance_datetime v then True
      else if isinstance_str v then
        (case v of PStr s \<Rightarrow> fromisoformat lib (replace_char 90 (ustr ''+00:00'') s) | _ \<Rightarrow> False)
      else False)"

definition infer_type :: "pylib \<Rightarrow> pyval \<Rightarrow> pystr" where
  "infer_type lib v =
     (if isinstance_bool v then YESNO
      else if isinstance_int v then INTEGER
      else if isinstance_float v then DOUBLE
      else if is_datetime lib v then DATETIME
      else TEXT255)"

type_synonym schema = "(pystr \<times> pystr) list"

text \<open>The inner loop of \<^verbatim>\<open>_extract_schema\<close>, over the items of one record.\<close>

fun extract_items :: "pylib \<Rightarrow> schema \<Rightarrow> (pystr \<times> pyval) list \<Rightarrow> schema" where
  "extract_items lib sch [] = sch"
| "extract_items lib sch ((key, v) # kvs) =
     (if key = k_metadata then extract_items lib sch kvs
      else if key \<notin> set (map fst sch) then extract_items lib (sch @ [(key, infer_type lib v)]) kvs
      else extract_items lib sch kvs)"

text \<open>The outer loop, over the records.\<close>

fun extract_records :: "pylib \<Rightarrow> schema \<Rightarrow> pyval list \<Rightarrow> pyerror + schema" where
  "extract_records lib sch [] = Inr sch"
| "extract_records lib sch (r # rs) =
     ebind (dict_items r) (\<lambda>kvs. extract_records lib (extract_items lib sch kvs) rs)"

definition extract_schema :: "pylib \<Rightarrow> pyval list \<Rightarrow> pyerror + schema" where
  "extract_schema lib records = extract_records lib [] records"

section \<open>Type Normalizer\<close>

subsection \<open>\<^verbatim>\<open>json.dumps(value, ensure_ascii=False)\<close>\<close>

fun nat_digits :: "nat \<Rightarrow> pystr" where
  "nat_digits n = (if n < 10 then [48 + n] else nat_digits (n div 10) @ [48 + n mod 10])"

definition int_repr :: "int \<Rightarrow> pystr" where
  "int_repr i = (if i < 0 then 45 # nat_digits (nat (- i)) else nat_digits (nat i))"

definition hex_digit :: "nat \<Rightarrow> nat" where
  "hex_digit n = (if n < 10 then 48 + n else 87 + n)"

text \<open>With \<^verbatim>\<open>ensure_ascii=False\<close> the encoder escapes the quote, the backslash and the control
  characters below \<^verbatim>\<open>0x20\<close>; every other character is copied.\<close>

definition escape_char :: "nat \<Rightarrow> pystr" where
  "escape_char c =
     (if c = 34 then [92, 34]
      else if c = 92 then [92, 92]
      else if c = 10 then [92, 110]
      else if c = 13 then [92, 114]
      else if c = 9 then [92, 116]
      else if c = 8 then [92, 98]
      else if c = 12 then [92, 102]
      else if c < 32 then [92, 117, 48, 48, hex_digit (c div 16), hex_digit (c mod 16)]
      else [c])"

definition encode_str :: "pystr \<Rightarrow> pystr" where
  "encode_str s = 34 # concat (map escape_char s) @ [34]"

definition floatstr :: "pylib \<Rightarrow> pyfloat \<Rightarrow> pystr" where
  "floatstr lib x =
     (if float_is_nan x then ustr ''NaN''
      else if x = float_inf then ustr ''Infinity''
      else if x = float_neginf then ustr ''-Infinity''
      else float_repr lib x)"

text \<open>The encoder raises \<^verbatim>\<open>TypeError\<close> on an object of a type it does not know: of the values
  here, a \<^verbatim>\<open>datetime\<close>.\<close>

fun serializable :: "pyval \<Rightarrow> bool"
  and serializable_list :: "pyval list \<Rightarrow> bool"
  and serializable_items :: "(pystr \<times> pyval) list \<Rightarrow> bool" where
  "serializable (PDatetime t) = False"
| "serializable (PList xs) = serializable_list xs"
| "serializable (PDict kvs) = serializable_items kvs"
| "serializable PNone = True"
| "serializable (PBool b) = True"
| "serializable (PInt i) = True"
| "serializable (PFloat x) = True"
| "serializable (PStr s) = True"
| "serializable_list [] = True"
| "serializable_list (x # xs) = (serializable x \<and> serializable_list xs)"
| "serializable_items [] = True"
| "serializable_items ((k, v) # kvs) = (serializable v \<and> serializable_items kvs)"

text \<open>The text the encoder builds, with the default separators \<^verbatim>\<open>", "\<close> and \<^verbatim>\<open>": "\<close>.\<close>

fun encode :: "pylib \<Rightarrow> pyval \<Rightarrow> pystr"
  and encode_list :: "pylib \<Rightarrow> pyval list \<Rightarrow> pystr"
  and encode_items :: "pylib \<Rightarrow> (pystr \<times> pyval) list \<Rightarrow> pystr" where
  "encode lib PNone = ustr ''null''"
| "encode lib (PBool b) = (if b then ustr ''true'' else ustr ''false'')"
| "encode lib (PInt i) = int_repr i"
| "encode lib (PFloat x) = floatstr lib x"
| "encode lib (PStr s) = encode_str s"
| "encode lib (PDatetime t) = []"
| "encode lib (PList xs) = 91 # encode_list lib xs @ [93]"
| "encode lib (PDict kvs) = 123 # encode_items lib kvs @ [125]"
| "encode_list lib [] = []"
| "encode_list lib [x] = encode lib x"
| "encode_list lib (x # y # ys) = encode lib x @ [44, 32] @ encode_list lib (y # ys)"
| "encode_items lib [] = []"
| "encode_items lib [(k, v)] = encode_str k @ [58, 32] @ encode lib v"
| "encode_items lib ((k, v) # kv # kvs) =
     encode_str k @ [58, 32] @ encode lib v @ [44, 32] @ encode_items lib (kv # kvs)"

definition json_dumps :: "pylib \<Rightarrow> pyval \<Rightarrow> pyerror + pystr" where
  "json_dumps lib v = (if serializable v then Inr (encode lib v) else Inl TypeError)"

subsection \<open>A reader for JSON text\<close>

text \<open>
  The decoder of the \<^verbatim>\<open>json\<close> module, after its scanner: leading and trailing whitespace is
  skipped, a string ends at the first unescaped quote and holds no raw control character, a
  number is \<^verbatim>\<open>-?(0|[1-9][0-9]*)(\.[0-9]+)?([eE][-+]?[0-9]+)?\<close> and is a \<^verbatim>\<open>float\<close> when it has a
  fraction or an exponent, an object becomes a \<^verbatim>\<open>dict\<close> (a repeated key keeps its first
  position and its last value). With \<open>nan = True\<close> the reader also takes the constants
  \<^verbatim>\<open>NaN\<close>, \<^verbatim>\<open>Infinity\<close> and \<^verbatim>\<open>-Infinity\<close>, as \<^verbatim>\<open>json.loads\<close> does; with \<open>nan = False\<close> it
  takes the JSON grammar of RFC 8259 only. \<open>fp\<close> is \<^verbatim>\<open>float\<close> on the text of a number. The
  recursion carries fuel; \<open>json_loads\<close> gives it the length of the text, which is enough
  (every call consumes a character).
\<close>

definition is_ws :: "nat \<Rightarrow> bool" where
  "is_ws c = (c = 32 \<or> c = 9 \<or> c = 10 \<or> c = 13)"

definition skip_ws :: "pystr \<Rightarrow> pystr" where
  "skip_ws s = dropWhile is_ws s"

definition is_digit :: "nat \<Rightarrow> bool" where
  "is_digit c = (48 \<le> c \<and> c \<le> 57)"

definition hex_val :: "nat \<Rightarrow> nat option" where
  "hex_val c =
     (if 48 \<le> c \<and> c \<le> 57 then Some (c - 48)
      else if 97 \<le> c \<and> c \<le> 102 then Some (c - 87)
      else if 65 \<le> c \<and> c \<le> 70 then Some (c - 55)
      else None)"

fun decode_u4 :: "pystr \<Rightarrow> nat option" where
  "decode_u4 (a # b # c # d # rest) =
     (case (hex_val a, hex_val b, hex_val c, hex_val d) of
        (Some x, Some y, Some z, Some w) \<Rightarrow> Some (((x * 16 + y) * 16 + z) * 16 + w)
      | _ \<Rightarrow> None)"
| "decode_u4 s = None"

definition backslash :: "nat \<Rightarrow> nat option" where
  "backslash e =
     (if e = 34 then Some 34
      else if e = 92 then Some 92
      else if e = 47 then Some 47
      else if e = 98 then Some 8
      else if e = 102 then Some 12
      else if e = 110 then Some 10
      else if e = 114 then Some 13
      else if e = 116 then Some 9
      else None)"

definition scan_escape :: "pystr \<Rightarrow> (nat \<times> pystr) option" where
  "scan_escape s =
     (case s of
        [] \<Rightarrow> None
      | e # es \<Rightarrow>
          if e \<noteq> 117 then map_option (\<lambda>c. (c, es)) (backslash e)
          else (case decode_u4 es of
                  None \<Rightarrow> None
                | Some uni \<Rightarrow>
                    let r = drop 4 es in
                    if 0xD800 \<le> uni \<and> uni \<le> 0xDBFF \<and> take 2 r = [92, 117] then
                      (case decode_u4 (drop 2 r) of
                         None \<Rightarrow> None
                       | Some uni2 \<Rightarrow>
                           if 0xDC00 \<le> uni2 \<and> uni2 \<le> 0xDFFF
                           then Some (0x10000 + ((uni - 0xD800) * 1024 + (uni2 - 0xDC00)), drop 6 r)
                           else Some (uni, r))
                    else Some (uni, r)))"

function scanstring :: "pystr \<Rightarrow> (pystr \<times> pystr) option" where
  "scanstring [] = None"
| "scanstring (c # cs) =
     (if c = 34 then Some ([], cs)
      else if c = 92 then
        (case scan_escape cs of
           None \<Rightarrow> None
         | Some (ch, r) \<Rightarrow> map_option (\<lambda>(t, r'). (ch # t, r')) (scanstring r))
      else if c < 32 then None
      else map_option (\<lambda>(t, r'). (c # t, r')) (scanstring cs))"
  by pat_completeness auto
termination
  by (relation "measure length")
     (auto simp: scan_escape_def Let_def split: list.splits if_splits option.splits)


definition digits_val :: "pystr \<Rightarrow> nat" where
  "digits_val ds = foldl (\<lambda>a c. a * 10 + (c - 48)) 0 ds"

definition int_of_text :: "pystr \<Rightarrow> int" where
  "int_of_text t = (case t of [] \<Rightarrow> 0 | c # cs \<Rightarrow> if c = 45 then - int (digits_val cs) else int (digits_val t))"

definition scan_int_part :: "pystr \<Rightarrow> (pystr \<times> pystr) option" where
  "scan_int_part s =
     (let (sign, r) = (case s of [] \<Rightarrow> ([], s) | c # cs \<Rightarrow> if c = 45 then ([45], cs) else ([], s))
      in case r of
           [] \<Rightarrow> None
         | c # cs \<Rightarrow>
             if c = 48 then Some (sign @ [48], cs)
             else if is_digit c then Some (sign @ takeWhile is_digit r, dropWhile is_digit r)
             else None)"

definition scan_frac :: "pystr \<Rightarrow> pystr \<times> pystr" where
  "scan_frac s =
     (case s of
        [] \<Rightarrow> ([], s)
      | c # cs \<Rightarrow>
          if c = 46 \<and> takeWhile is_digit cs \<noteq> [] then (46 # takeWhile is_digit cs, dropWhile is_digit cs)
          else ([], s))"

definition scan_exp :: "pystr \<Rightarrow> pystr \<times> pystr" where
  "scan_exp s =
     (case s of
        [] \<Rightarrow> ([], s)
      | c # cs \<Rightarrow>
          if c = 101 \<or> c = 69 then
            (let (sg, r) = (case cs of [] \<Rightarrow> ([], cs) | d # ds \<Rightarrow> if d = 43 \<or> d = 45 then ([d], ds) else ([], cs))
             in if takeWhile is_digit r \<noteq> [] then (c # sg @ takeWhile is_digit r, dropWhile is_digit r)
                else ([], s))
          else ([], s))"

definition scan_number :: "(pystr \<Rightarrow> pyfloat) \<Rightarrow> pystr \<Rightarrow> (pyval \<times> pystr) option" where
  "scan_number fp s =
     (case scan_int_part s of
        None \<Rightarrow> None
      | Some (integer, r1) \<Rightarrow>
          (let (frac, r2) = scan_frac r1; (ex, r3) = scan_exp r2
           in if frac \<noteq> [] \<or> ex \<noteq> [] then Some (PFloat (fp (integer @ frac @ ex)), r3)
              else Some (PInt (int_of_text integer), r3)))"

definition float_nan :: pyfloat where
  "float_nan = 0x7FF8000000000000"

definition scan_constant :: "pystr \<Rightarrow> (pyval \<times> pystr) option" where
  "scan_constant s =
     (if take 3 s = ustr ''NaN'' then Some (PFloat float_nan, drop 3 s)
      else if take 8 s = ustr ''Infinity'' then Some (PFloat float_inf, drop 8 s)
      else if take 9 s = ustr ''-Infinity'' then Some (PFloat float_neginf, drop 9 s)
      else None)"

fun dict_set :: "(pystr \<times> pyval) list \<Rightarrow> pystr \<Rightarrow> pyval \<Rightarrow> (pystr \<times> pyval) list" where
  "dict_set [] k v = [(k, v)]"
| "dict_set ((k', v') # kvs) k v = (if k' = k then (k', v) # kvs else (k', v') # dict_set kvs k v)"

definition py_dict :: "(pystr \<times> pyval) list \<Rightarrow> (pystr \<times> pyval) list" where
  "py_dict pairs = foldl (\<lambda>d kv. dict_set d (fst kv) (snd kv)) [] pairs"

fun parse_value :: "(pystr \<Rightarrow> pyfloat) \<Rightarrow> bool \<Rightarrow> nat \<Rightarrow> pystr \<Rightarrow> (pyval \<times> pystr) option"
  and parse_array :: "(pystr \<Rightarrow> pyfloat) \<Rightarrow> bool \<Rightarrow> nat \<Rightarrow> pystr \<Rightarrow> (pyval list \<times> pystr) option"
  and parse_object :: "(pystr \<Rightarrow> pyfloat) \<Rightarrow> bool \<Rightarrow> nat \<Rightarrow> pystr \<Rightarrow> ((pystr \<times> pyval) list \<times> pystr) option"
  where
  "parse_value fp nan 0 s = None"
| "parse_value fp nan (Suc n) s =
     (case s of
        [] \<Rightarrow> None
      | c # cs \<Rightarrow>
          if c = 34 then map_option (\<lambda>(t, r). (PStr t, r)) (scanstring cs)
          else if c = 123 then
            (case skip_ws cs of
               [] \<Rightarrow> None
             | q # qs \<Rightarrow>
                 if q = 125 then Some (PDict [], qs)
                 else if q = 34 then map_option (\<lambda>(kvs, r). (PDict (py_dict kvs), r)) (parse_object fp nan n qs)
                 else None)
          else if c = 91 then
            (case skip_ws cs of
               [] \<Rightarrow> None
             | q # qs \<Rightarrow>
                 if q = 93 then Some (PList [], qs)
                 else map_option (\<lambda>(vs, r). (PList vs, r)) (parse_array fp nan n (q # qs)))
          else if take 4 s = ustr ''null'' then Some (PNone, drop 4 s)
          else if take 4 s = ustr ''true'' then Some (PBool True, drop 4 s)
          else if take 5 s = ustr ''false'' then Some (PBool False, drop 5 s)
          else (case scan_number fp s of
                  Some r \<Rightarrow> Some r
                | None \<Rightarrow> if nan then scan_constant s else None))"
| "parse_array fp nan 0 s = None"
| "parse_array fp nan (Suc n) s =
     (case parse_value fp nan n s of
        None \<Rightarrow> None
      | Some (v, r) \<Rightarrow>
          (case skip_ws r of
             [] \<Rightarrow> None
           | c # cs \<Rightarrow>
               if c = 93 then Some ([v], cs)
               else if c = 44 then map_option (\<lambda>(vs, r'). (v # vs, r')) (parse_array fp nan n (skip_ws cs))
               else None))"
| "parse_object fp nan 0 s = None"
| "parse_object fp nan (Suc n) s =
     (case scanstring s of
        None \<Rightarrow> None
      | Some (key, r) \<Rightarrow>
          (case skip_ws r of
             [] \<Rightarrow> None
           | c # cs \<Rightarrow>
               if c \<noteq> 58 then None
               else (case parse_value fp nan n (skip_ws cs) of
                       None \<Rightarrow> None
                     | Some (v, r1) \<Rightarrow>
                         (case skip_ws r1 of
                            [] \<Rightarrow> None
                          | e # es \<Rightarrow>
                              if e = 125 then Some ([(key, v)], es)
                              else if e = 44 then
                                (case skip_ws es of
                                   [] \<Rightarrow> None
                                 | q # qs \<Rightarrow>
                                     if q = 34 then map_option (\<lambda>(kvs, r'). ((key, v) # kvs, r')) (parse_object fp nan n qs)
                                     else None)
                              else None))))"

definition json_loads :: "(pystr \<Rightarrow> pyfloat) \<Rightarrow> bool \<Rightarrow> pystr \<Rightarrow> pyval option" where
  "json_loads fp nan s =
     (case parse_value fp nan (Suc (length s)) (skip_ws s) of
        None \<Rightarrow> None
      | Some (v, r) \<Rightarrow> if skip_ws r = [] then Some v else None)"

subsection \<open>\<^verbatim>\<open>_normalize_record\<close>\<close>

definition convert_value :: "pylib \<Rightarrow> pyval \<Rightarrow> pyerror + pyval" where
  "convert_value lib v =
     (if v = PNone then Inr PNone
      else if isinstance_str v \<or> isinstance_int v \<or> isinstance_float v \<or> isinstance_bool v
              \<or> isinstance_datetime v then Inr v
      else ebind (json_dumps lib v) (\<lambda>s. Inr (PStr s)))"

definition normalize_record :: "pylib \<Rightarrow> pyval \<Rightarrow> schema \<Rightarrow> pyerror + pyval list" where
  "normalize_record lib record sch =
     collect (map (\<lambda>field. ebind (dict_get record field PNone) (convert_value lib)) (map fst sch))"

section \<open>Loader\<close>

record converter =
  json_path :: pystr
  mdb_path :: pystr
  template_path :: "pystr option"
  org_schema :: schema
  comm_schema :: schema
  org_records :: "pyval list"
  comm_records :: "pyval list"

text \<open>\<^verbatim>\<open>__init__\<close>.\<close>

definition init :: "pystr \<Rightarrow> pystr \<Rightarrow> pystr option \<Rightarrow> converter" where
  "init jp mp tp =
     \<lparr>json_path = jp, mdb_path = mp, template_path = tp, org_schema = [], comm_schema = [],
      org_records = [], comm_records = []\<rparr>"

text \<open>The children one parent contributes: the second half of the loop body of
  \<^verbatim>\<open>_load_json\<close>.\<close>

definition comms_of :: "pyval \<Rightarrow> pyerror + pyval list" where
  "comms_of org =
     ebind (str_in k_Communications org) (\<lambda>has.
       if \<not> has then Inr []
       else ebind (str_subscript org k_Communications) (\<lambda>c.
         ebind (str_in k_results c) (\<lambda>has_results.
           if \<not> has_results then Inr []
           else ebind (str_subscript c k_results) py_iter)))"

text \<open>The loop \<^verbatim>\<open>for org in data\<close>, with the two lists it appends to.\<close>

fun separate :: "pyval list \<Rightarrow> pyval list \<Rightarrow> pyval list \<Rightarrow> pyerror + pyval list \<times> pyval list" where
  "separate [] org_list comm_list = Inr (org_list, comm_list)"
| "separate (org # data) org_list comm_list =
     ebind (dict_items org) (\<lambda>kvs.
       let org_copy = PDict (filter (\<lambda>kv. fst kv \<noteq> k_Communications) kvs) in
       ebind (comms_of org) (\<lambda>comms.
         separate data (org_list @ [org_copy]) (comm_list @ comms)))"

text \<open>\<^verbatim>\<open>_load_json\<close>. The files are regular, readable files, by path; \<^verbatim>\<open>open\<close> raises
  \<^verbatim>\<open>FileNotFoundError\<close> on a path that has none.\<close>

definition load_json :: "pylib \<Rightarrow> converter \<Rightarrow> (pystr \<rightharpoonup> pystr) \<Rightarrow> pyerror + converter" where
  "load_json lib self fs =
     (case fs (json_path self) of
        None \<Rightarrow> Inl (RuntimeError (ustr ''JSON file not found: '' @ json_path self))
      | Some text \<Rightarrow>
         (case json_load lib text of
            JSONDecodeError \<Rightarrow> Inl (RuntimeError (ustr ''Invalid JSON format in '' @ json_path self))
          | Raised e \<Rightarrow> Inl (Propagated e)
          | Loaded full_data \<Rightarrow>
              ebind (dict_get full_data k_d (PDict [])) (\<lambda>d.
              ebind (dict_get d k_results (PList [])) (\<lambda>data.
                if \<not> truthy data then Inl (RuntimeError (ustr ''No 'results' found in JSON''))
                else
                  ebind (py_iter data) (\<lambda>orgs.
                  ebind (separate orgs [] []) (\<lambda>(org_list, comm_list).
                  ebind (extract_schema lib org_list) (\<lambda>os.
                  ebind (extract_schema lib comm_list) (\<lambda>cs.
                    Inr (self\<lparr>org_schema := os, comm_schema := cs,
                              org_records := org_list, comm_records := comm_list\<rparr>)))))))))"

section \<open>Store Writer and the run\<close>

text \<open>The world a run acts on: the files by path, and the statements the store has executed.\<close>

record world =
  files :: "pystr \<rightharpoonup> pystr"
  executed :: "stmt list"

text \<open>The message of the raise in \<^verbatim>\<open>_create_mdb\<close>; its dash is the code point 8212.\<close>

definition no_template_msg :: pystr where
  "no_template_msg =
     ustr ''MDB template path not provided '' @ [8212] @ ustr '' cannot create file.''"

definition create_mdb :: "converter \<Rightarrow> world \<Rightarrow> (pyerror + unit) \<times> world" where
  "create_mdb self w =
     (let w1 = (if files w (mdb_path self) \<noteq> None
                then w\<lparr>files := (files w)(mdb_path self := None)\<rparr> else w)
      in case template_path self of
           None \<Rightarrow> (Inl (RuntimeError no_template_msg), w1)
         | Some t \<Rightarrow>
             if t = [] then
               (Inl (RuntimeError no_template_msg), w1)
             else (case files w1 t of
                     None \<Rightarrow> (Inl FileNotFoundError, w1)
                   | Some c \<Rightarrow> (Inr (), w1\<lparr>files := (files w1)(mdb_path self \<mapsto> c)\<rparr>)))"

definition connect_mdb :: "pylib \<Rightarrow> converter \<Rightarrow> pyerror + unit" where
  "connect_mdb lib self =
     (case odbc_connect lib
             (ustr ''DRIVER={Microsoft Access Driver (*.mdb, *.accdb)};DBQ='' @ mdb_path self @ ustr '';'') of
        Some e \<Rightarrow> Inl (RuntimeError (ustr ''Failed to connect to MDB: '' @ e))
      | None \<Rightarrow> Inr ())"

text \<open>One call on the cursor or the connection: the store executes the statement or raises.\<close>

definition run_stmt :: "pylib \<Rightarrow> stmt \<Rightarrow> world \<Rightarrow> (pyerror + unit) \<times> world" where
  "run_stmt lib st w =
     (if odbc_rejects lib st then (Inl PyodbcError, w)
      else (Inr (), w\<lparr>executed := executed w @ [st]\<rparr>))"

definition sbind :: "(pyerror + 'a) \<times> world \<Rightarrow> ('a \<Rightarrow> world \<Rightarrow> (pyerror + 'b) \<times> world)
    \<Rightarrow> (pyerror + 'b) \<times> world" where
  "sbind m f = (case m of (Inl e, w) \<Rightarrow> (Inl e, w) | (Inr x, w) \<Rightarrow> f x w)"

fun join :: "pystr \<Rightarrow> pystr list \<Rightarrow> pystr" where
  "join sep [] = []"
| "join sep [s] = s"
| "join sep (s # t # ts) = s @ sep @ join sep (t # ts)"

definition build_table_sql :: "pystr \<Rightarrow> schema \<Rightarrow> pystr" where
  "build_table_sql table_name sch =
     ustr ''CREATE TABLE '' @ table_name @ ustr '' ('' @
     join (ustr '', '') (map (\<lambda>(field, ftype). ustr ''['' @ field @ ustr ''] '' @ ftype) sch) @
     ustr '');''"

definition create_tables :: "pylib \<Rightarrow> converter \<Rightarrow> world \<Rightarrow> (pyerror + unit) \<times> world" where
  "create_tables lib self w =
     sbind (run_stmt lib (Execute (build_table_sql (ustr ''Organizations'') (org_schema self))) w) (\<lambda>_ w.
     sbind (run_stmt lib (Execute (build_table_sql (ustr ''Communications'') (comm_schema self))) w) (\<lambda>_ w.
       run_stmt lib Commit w))"

definition insert_records :: "pylib \<Rightarrow> pystr \<Rightarrow> schema \<Rightarrow> pyval list \<Rightarrow> world
    \<Rightarrow> (pyerror + unit) \<times> world" where
  "insert_records lib table_name sch records w =
     (let placeholders = join (ustr '', '') (map (\<lambda>_. ustr ''?'') sch);
          insert_sql = ustr ''INSERT INTO '' @ table_name @ ustr '' ('' @
            join (ustr '', '') (map (\<lambda>f. ustr ''['' @ fst f @ ustr '']'') sch) @
            ustr '') VALUES ('' @ placeholders @ ustr '');''
      in case collect (map (\<lambda>record. normalize_record lib record sch) records) of
           Inl e \<Rightarrow> (Inl e, w)
         | Inr normalized \<Rightarrow> run_stmt lib (ExecuteMany insert_sql normalized) w)"

definition insert_data :: "pylib \<Rightarrow> converter \<Rightarrow> world \<Rightarrow> (pyerror + unit) \<times> world" where
  "insert_data lib self w =
     sbind (insert_records lib (ustr ''Organizations'') (org_schema self) (org_records self) w) (\<lambda>_ w.
     sbind (insert_records lib (ustr ''Communications'') (comm_schema self) (comm_records self) w) (\<lambda>_ w.
       run_stmt lib Commit w))"

text \<open>\<^verbatim>\<open>convert\<close>: the run. It returns the converter as the run left it.\<close>

definition convert :: "pylib \<Rightarrow> converter \<Rightarrow> world \<Rightarrow> (pyerror + converter) \<times> world" where
  "convert lib self w =
     (case load_json lib self (files w) of
        Inl e \<Rightarrow> (Inl e, w)
      | Inr self1 \<Rightarrow>
          sbind (create_mdb self1 w) (\<lambda>_ w.
          sbind (connect_mdb lib self1, w) (\<lambda>_ w.
          sbind (create_tables lib self1 w) (\<lambda>_ w.
          sbind (insert_data lib self1 w) (\<lambda>_ w.
            (Inr self1, w))))))"

section \<open>JSON values and an instance of the library\<close>



text \<open>
  A recogniser for the texts \<^verbatim>\<open>datetime.isoformat()\<close> emits at the resolution of seconds:
  \<^verbatim>\<open>YYYY-MM-DD\<close>, then optionally one separator character and \<^verbatim>\<open>HH:MM:SS\<close>, then optionally
  an offset \<^verbatim>\<open>+HH:MM\<close> or \<^verbatim>\<open>-HH:MM\<close>. Every version of \<^verbatim>\<open>datetime.fromisoformat\<close> accepts
  these; the recogniser stands for the library function in the closed examples.
\<close>

definition digits_ok :: "pystr \<Rightarrow> bool" where
  "digits_ok ds = (ds \<noteq> [] \<and> list_all is_digit ds)"

definition days_in_month :: "nat \<Rightarrow> nat \<Rightarrow> nat" where
  "days_in_month y m =
     (if m = 2 then (if y mod 4 = 0 \<and> (y mod 100 \<noteq> 0 \<or> y mod 400 = 0) then 29 else 28)
      else if m = 4 \<or> m = 6 \<or> m = 9 \<or> m = 11 then 30 else 31)"

definition iso_date :: "pystr \<Rightarrow> bool" where
  "iso_date s =
     (length s = 10 \<and> digits_ok (take 4 s) \<and> s ! 4 = 45 \<and> digits_ok (take 2 (drop 5 s))
      \<and> s ! 7 = 45 \<and> digits_ok (drop 8 s)
      \<and> (let y = digits_val (take 4 s); m = digits_val (take 2 (drop 5 s)); d = digits_val (drop 8 s)
         in 1 \<le> y \<and> 1 \<le> m \<and> m \<le> 12 \<and> 1 \<le> d \<and> d \<le> days_in_month y m))"

definition iso_hms :: "pystr \<Rightarrow> bool" where
  "iso_hms s =
     (length s = 8 \<and> digits_ok (take 2 s) \<and> s ! 2 = 58 \<and> digits_ok (take 2 (drop 3 s))
      \<and> s ! 5 = 58 \<and> digits_ok (drop 6 s)
      \<and> digits_val (take 2 s) < 24 \<and> digits_val (take 2 (drop 3 s)) < 60 \<and> digits_val (drop 6 s) < 60)"

definition iso_offset :: "pystr \<Rightarrow> bool" where
  "iso_offset s =
     (length s = 6 \<and> (s ! 0 = 43 \<or> s ! 0 = 45) \<and> digits_ok (take 2 (drop 1 s)) \<and> s ! 3 = 58
      \<and> digits_ok (drop 4 s) \<and> digits_val (take 2 (drop 1 s)) < 24 \<and> digits_val (drop 4 s) < 60)"

definition isoformat_basic :: "pystr \<Rightarrow> bool" where
  "isoformat_basic s =
     (iso_date (take 10 s)
      \<and> (length s = 10
         \<or> (length s = 19 \<and> iso_hms (drop 11 s))
         \<or> (length s = 25 \<and> iso_hms (take 8 (drop 11 s)) \<and> iso_offset (drop 19 s))))"

text \<open>A few doubles with their \<^verbatim>\<open>repr\<close>: \<^verbatim>\<open>0.0\<close>, \<^verbatim>\<open>1.5\<close>, \<^verbatim>\<open>-2.0\<close>, \<^verbatim>\<open>0.1\<close> and \<^verbatim>\<open>1e+16\<close>; and a
  number text beyond the range of a double, which \<^verbatim>\<open>float\<close> reads as infinity.\<close>

definition float_table :: "(pystr \<times> pyfloat) list" where
  "float_table =
     [(ustr ''0.0'', 0x0000000000000000), (ustr ''1.5'', 0x3FF8000000000000),
      (ustr ''-2.0'', 0xC000000000000000), (ustr ''0.1'', 0x3FB999999999999A),
      (ustr ''1e+16'', 0x4341C37937E08000), (ustr ''1e999'', 0x7FF0000000000000)]"

definition example_float_of_str :: "pystr \<Rightarrow> pyfloat" where
  "example_float_of_str t = (case map_of float_table t of Some x \<Rightarrow> x | None \<Rightarrow> 0)"

definition example_float_repr :: "pyfloat \<Rightarrow> pystr" where
  "example_float_repr x =
     (case map_of (map (\<lambda>p. (snd p, fst p)) float_table) x of Some t \<Rightarrow> t | None \<Rightarrow> ustr ''0.0'')"

definition example_lib :: pylib where
  "example_lib =
     \<lparr>fromisoformat = isoformat_basic,
      json_load = (\<lambda>content. case json_loads example_float_of_str True content of
                                 None \<Rightarrow> JSONDecodeError | Some v \<Rightarrow> Loaded v),
      float_repr = example_float_repr,
      float_of_str = example_float_of_str,
      odbc_connect = (\<lambda>c. None),
      odbc_rejects = (\<lambda>st. False)\<rparr>"

section \<open>Notions of the specification\<close>

text \<open>The Schema's column order is the first-encounter order of the keys.\<close>

definition first_encounter :: "pystr list \<Rightarrow> pystr list" where
  "first_encounter ks = rev (remdups (rev ks))"

text \<open>The value a Normalized Row carries for a field value: a composite is replaced by its JSON
  text, anything else is kept.\<close>

definition row_value :: "pylib \<Rightarrow> pyval \<Rightarrow> pyval" where
  "row_value lib v = (case v of PList xs \<Rightarrow> PStr (encode lib v) | PDict kvs \<Rightarrow> PStr (encode lib v) | _ \<Rightarrow> v)"

text \<open>The input format: a parent may hold under \<^verbatim>\<open>Communications\<close> an object, which may hold
  under \<^verbatim>\<open>results\<close> an array. \<open>nested_results\<close> is that array.\<close>

fun is_dict :: "pyval \<Rightarrow> bool" where
  "is_dict (PDict kvs) = True"
| "is_dict v = False"

definition nested_results :: "(pystr \<times> pyval) list \<Rightarrow> pyval list" where
  "nested_results kvs =
     (case map_of kvs k_Communications of
        Some (PDict c) \<Rightarrow> (case map_of c k_results of Some (PList xs) \<Rightarrow> xs | _ \<Rightarrow> [])
      | _ \<Rightarrow> [])"

definition well_shaped_parent :: "(pystr \<times> pyval) list \<Rightarrow> bool" where
  "well_shaped_parent kvs =
     (case map_of kvs k_Communications of
        None \<Rightarrow> True
      | Some (PDict c) \<Rightarrow>
          (case map_of c k_results of None \<Rightarrow> True | Some (PList xs) \<Rightarrow> True | _ \<Rightarrow> False)
      | _ \<Rightarrow> False)"

text \<open>The error taxonomy of the specification. The source raises \<^verbatim>\<open>RuntimeError\<close> for the three
  loading errors and tells them apart by the message.\<close>

definition NotFoundError :: "pystr \<Rightarrow> pyerror" where
  "NotFoundError path = RuntimeError (ustr ''JSON file not found: '' @ path)"

definition ParseError :: "pystr \<Rightarrow> pyerror" where
  "ParseError path = RuntimeError (ustr ''Invalid JSON format in '' @ path)"

definition MissingDataError :: pyerror where
  "MissingDataError = RuntimeError (ustr ''No 'results' found in JSON'')"

section \<open>Example inputs\<close>

definition path_in :: pystr where "path_in = ustr ''in.json''"
definition path_out :: pystr where "path_out = ustr ''out.mdb''"

definition doc_empty :: pystr where
  \<open>doc_empty = ustr ''{"d":{"results":[]}}''\<close>

definition doc_scalar_results :: pystr where
  \<open>doc_scalar_results = ustr ''{"d":{"results":5}}''\<close>

definition doc_acme :: pystr where
  \<open>doc_acme = ustr ''{"d":{"results":[{"Id":1,"Name":"Acme","Communications":{"results":[{"OrgId":1,"Type":"email"}]}}]}}''\<close>

definition doc_comm_string :: pystr where
  \<open>doc_comm_string = ustr ''{"d":{"results":[{"Id":1,"Communications":"my results"}]}}''\<close>

definition doc_comm_array :: pystr where
  \<open>doc_comm_array = ustr ''{"d":{"results":[{"Id":1,"Communications":["results"]}]}}''\<close>

text \<open>The parent of \<open>doc_acme\<close>, and the converter after loading it.\<close>

definition acme_parent :: "(pystr \<times> pyval) list" where
  "acme_parent =
     [(ustr ''Id'', PInt 1), (ustr ''Name'', PStr (ustr ''Acme'')),
      (k_Communications, PDict [(k_results,
         PList [PDict [(ustr ''OrgId'', PInt 1), (ustr ''Type'', PStr (ustr ''email''))]])])]"

definition acme_loaded :: converter where
  "acme_loaded =
     (init path_in path_out None)
       \<lparr>org_schema := [(ustr ''Id'', INTEGER), (ustr ''Name'', TEXT255)],
        comm_schema := [(ustr ''OrgId'', INTEGER), (ustr ''Type'', TEXT255)],
        org_records := [PDict [(ustr ''Id'', PInt 1), (ustr ''Name'', PStr (ustr ''Acme''))]],
        comm_records := [PDict [(ustr ''OrgId'', PInt 1), (ustr ''Type'', PStr (ustr ''email''))]]\<rparr>"

text \<open>A world with the input file and a stale output file.\<close>

definition world_acme :: world where
  "world_acme = \<lparr>files = [path_in \<mapsto> doc_acme, path_out \<mapsto> ustr ''old''], executed = []\<rparr>"

section \<open>Notions for the round trip of composite values\<close>

text \<open>A text is a JSON number with a fraction or an exponent: the number scanner takes all of
  it and makes a \<^verbatim>\<open>float\<close> of it.\<close>

definition is_float_text :: "pystr \<Rightarrow> bool" where
  "is_float_text t =
     (case scan_int_part t of
        None \<Rightarrow> False
      | Some (integer, r1) \<Rightarrow>
          (case scan_frac r1 of
             (frac, r2) \<Rightarrow> (case scan_exp r2 of (ex, r3) \<Rightarrow> (frac \<noteq> [] \<or> ex \<noteq> []) \<and> r3 = [])))"

text \<open>
  What the round trip needs of the library on a \<^verbatim>\<open>float\<close> \<open>x\<close>: when \<open>x\<close> is finite, its
  \<^verbatim>\<open>repr\<close> is the text of a JSON number with a fraction or an exponent and \<^verbatim>\<open>float\<close> reads it
  back to \<open>x\<close> (the round-trip guarantee of \<^verbatim>\<open>float.__repr__\<close>). An infinity or the NaN of
  \<^verbatim>\<open>float('nan')\<close> is read back only by a reader that takes the constants (\<open>nan = True\<close>).
\<close>

definition float_roundtrips :: "pylib \<Rightarrow> bool \<Rightarrow> pyfloat \<Rightarrow> bool" where
  "float_roundtrips lib nan x =
     (if float_is_finite x
      then is_float_text (float_repr lib x) \<and> float_of_str lib (float_repr lib x) = x
      else nan \<and> (x = float_inf \<or> x = float_neginf \<or> x = float_nan))"

text \<open>What follows a value inside an encoded text: nothing, a comma, or a closing bracket.\<close>

definition delim :: "pystr \<Rightarrow> bool" where
  "delim rest = (case rest of [] \<Rightarrow> True | c # cs \<Rightarrow> c = 44 \<or> c = 93 \<or> c = 125)"

definition doc_comm_null :: pystr where
  \<open>doc_comm_null = ustr ''{"d":{"results":[{"Id":1,"Communications":null}]}}''\<close>

definition doc_nan :: pystr where
  \<open>doc_nan = ustr ''{"d":{"results":[{"a":NaN}]}}''\<close>


text \<open>The first character of an encoded value is no whitespace, comma or closing bracket.\<close>

definition value_start :: "nat \<Rightarrow> bool" where
  "value_start c = (\<not> is_ws c \<and> c \<noteq> 93 \<and> c \<noteq> 125 \<and> c \<noteq> 44)"



section \<open>Auxiliary facts\<close>

subsection \<open>Raising and returning\<close>

lemma ebind_Inr [simp]: "ebind (Inr x) f = f x"
  by (simp add: ebind_def)

lemma ebind_Inl [simp]: "ebind (Inl e) f = Inl e"
  by (simp add: ebind_def)

lemma ebind_eq_Inr: "ebind m f = Inr y \<longleftrightarrow> (\<exists>x. m = Inr x \<and> f x = Inr y)"
  by (cases m) simp_all

lemma collect_Inr: "collect (map Inr xs) = Inr xs"
  by (induction xs) simp_all

lemma collect_map_Inr: "(\<And>x. x \<in> set xs \<Longrightarrow> f x = Inr (g x)) \<Longrightarrow> collect (map f xs) = Inr (map g xs)"
  by (induction xs) simp_all

lemma sbind_Inl [simp]: "sbind (Inl e, w) f = (Inl e, w)"
  by (simp add: sbind_def)

lemma sbind_Inr [simp]: "sbind (Inr x, w) f = f x w"
  by (simp add: sbind_def)

subsection \<open>Evaluation of the examples\<close>

lemmas type_names = YESNO_def INTEGER_def DOUBLE_def DATETIME_def TEXT255_def

lemmas parse_defs = ustr_def json_loads_def skip_ws_def is_ws_def scan_number_def scan_int_part_def scan_frac_def scan_exp_def
  is_digit_def int_of_text_def digits_val_def py_dict_def scan_constant_def scan_escape_def backslash_def hex_val_def Let_def

lemmas key_defs = k_d_def k_results_def k_Communications_def k_metadata_def

lemma replace_char_append: "replace_char c new (s @ t) = replace_char c new s @ replace_char c new t"
  by (simp add: replace_char_def)

lemma replace_char_absent: "c \<notin> set s \<Longrightarrow> replace_char c new s = s"
  by (induction s) (auto simp: replace_char_def)

lemma distinct_names: "distinct [YESNO, INTEGER, DOUBLE, DATETIME, TEXT255]"
  by (simp add: type_names ustr_def)

lemma ex_ts: "replace_char 90 (ustr ''+00:00'') (ustr ''2024-01-15T10:30:00Z'') = ustr ''2024-01-15T10:30:00+00:00''"
  by (simp add: replace_char_def ustr_def)

lemma iso1: "isoformat_basic (ustr ''2024-01-15T10:30:00+00:00'')"
  by (simp add: isoformat_basic_def iso_date_def iso_hms_def iso_offset_def digits_ok_def is_digit_def digits_val_def days_in_month_def ustr_def Let_def)

lemma iso2: "\<not> isoformat_basic (ustr ''hello'')"
  by (simp add: isoformat_basic_def iso_date_def ustr_def)

lemma load_empty: "json_load example_lib doc_empty = Loaded (PDict [(k_d, PDict [(k_results, PList [])])])"
  by (simp add: example_lib_def doc_empty_def parse_defs key_defs)

lemma load_scalar: "json_load example_lib doc_scalar_results = Loaded (PDict [(k_d, PDict [(k_results, PInt 5)])])"
  by (simp add: example_lib_def doc_scalar_results_def parse_defs key_defs)

lemma load_acme: "json_load example_lib doc_acme =
   Loaded (PDict [(k_d, PDict [(k_results, PList [PDict [(ustr ''Id'', PInt 1), (ustr ''Name'', PStr (ustr ''Acme'')),
      (k_Communications, PDict [(k_results, PList [PDict [(ustr ''OrgId'', PInt 1), (ustr ''Type'', PStr (ustr ''email''))]])])]])])])"
  by (simp add: example_lib_def doc_acme_def parse_defs key_defs)

lemma load_comm_string: "json_load example_lib doc_comm_string =
   Loaded (PDict [(k_d, PDict [(k_results, PList [PDict [(ustr ''Id'', PInt 1), (k_Communications, PStr (ustr ''my results''))]])])])"
  by (simp add: example_lib_def doc_comm_string_def parse_defs key_defs)

lemma load_comm_array: "json_load example_lib doc_comm_array =
   Loaded (PDict [(k_d, PDict [(k_results, PList [PDict [(ustr ''Id'', PInt 1), (k_Communications, PList [PStr k_results])]])])])"
  by (simp add: example_lib_def doc_comm_array_def parse_defs key_defs)

subsection \<open>Schema inference\<close>

lemma extract_items_append:
  "extract_items lib sch (a @ b) = extract_items lib (extract_items lib sch a) b"
  by (induction a arbitrary: sch) auto

lemma extract_records_dicts:
  "extract_records lib sch (map PDict rows) = Inr (extract_items lib sch (concat rows))"
  by (induction rows arbitrary: sch) (simp_all add: extract_items_append)

lemma extract_schema_dicts:
  "extract_schema lib (map PDict rows) = Inr (extract_items lib [] (concat rows))"
  by (simp add: extract_schema_def extract_records_dicts)

lemma map_of_extract_items:
  "map_of (extract_items lib sch kvs) k =
     (case map_of sch k of
        Some t \<Rightarrow> Some t
      | None \<Rightarrow> if k = k_metadata then None else map_option (infer_type lib) (map_of kvs k))"
proof (induction kvs arbitrary: sch)
  case Nil
  then show ?case by (simp split: option.splits)
next
  case (Cons kv kvs)
  obtain key v where kv: "kv = (key, v)" by (cases kv)
  have mem: "key \<notin> fst ` set sch \<longleftrightarrow> map_of sch key = None"
    by (simp add: map_of_eq_None_iff)
  note ih1 = Cons.IH [of sch] and ih2 = Cons.IH [of "sch @ [(key, infer_type lib v)]"]
  show ?case
  proof (cases "key = k_metadata \<or> map_of sch key \<noteq> None")
    case True
    then have "extract_items lib sch (kv # kvs) = extract_items lib sch kvs"
      unfolding kv by (auto simp: mem)
    with True ih1 show ?thesis
      unfolding kv by (cases "k = key") (auto split: option.splits)
  next
    case False
    then have "extract_items lib sch (kv # kvs) = extract_items lib (sch @ [(key, infer_type lib v)]) kvs"
      unfolding kv by (auto simp: mem)
    with False ih2 show ?thesis
      unfolding kv by (cases "k = key") (auto split: option.splits)
  qed
qed

lemma first_encounter_snoc:
  "first_encounter (ks @ [k]) = (if k \<in> set ks then first_encounter ks else first_encounter ks @ [k])"
  by (simp add: first_encounter_def)

lemma set_first_encounter [simp]: "set (first_encounter ks) = set ks"
  by (simp add: first_encounter_def)

lemma distinct_first_encounter [simp]: "distinct (first_encounter ks)"
  by (simp add: first_encounter_def)

lemma extract_items_snoc:
  "extract_items lib sch (kvs @ [(k, v)]) =
     (let s = extract_items lib sch kvs in
      if k = k_metadata then s else if k \<notin> set (map fst s) then s @ [(k, infer_type lib v)] else s)"
  by (simp add: extract_items_append Let_def)

lemma keys_extract_items:
  "map fst (extract_items lib [] kvs) = first_encounter (filter (\<lambda>k. k \<noteq> k_metadata) (map fst kvs))"
proof (induction kvs rule: rev_induct)
  case Nil
  then show ?case by (simp add: first_encounter_def)
next
  case (snoc kv kvs)
  obtain k v where kv: "kv = (k, v)" by (cases kv)
  show ?case
    unfolding kv extract_items_snoc
    by (auto simp: snoc.IH Let_def first_encounter_snoc)
qed

lemma length_extract_items:
  "length (extract_items lib [] kvs) = card (set (map fst kvs) - {k_metadata})"
proof -
  have "length (extract_items lib [] kvs) = length (map fst (extract_items lib [] kvs))" by simp
  also have "\<dots> = card (set (first_encounter (filter (\<lambda>k. k \<noteq> k_metadata) (map fst kvs))))"
    unfolding keys_extract_items by (rule distinct_card [symmetric]) (rule distinct_first_encounter)
  also have "set (first_encounter (filter (\<lambda>k. k \<noteq> k_metadata) (map fst kvs))) = set (map fst kvs) - {k_metadata}"
    by auto
  finally show ?thesis .
qed

subsection \<open>Normalization\<close>


lemma convert_value_ok:
  "isinstance_datetime v \<or> serializable v \<Longrightarrow> convert_value lib v = Inr (row_value lib v)"
  by (cases v) (simp_all add: convert_value_def json_dumps_def row_value_def)

lemma normalize_record_dict:
  assumes "\<And>k v. (k, v) \<in> set kvs \<Longrightarrow> isinstance_datetime v \<or> serializable v"
  shows "normalize_record lib (PDict kvs) sch =
     Inr (map (\<lambda>field. case map_of kvs field of None \<Rightarrow> PNone | Some v \<Rightarrow> row_value lib v) (map fst sch))"
  unfolding normalize_record_def
proof (rule collect_map_Inr)
  fix field
  show "ebind (dict_get (PDict kvs) field PNone) (convert_value lib) =
        Inr (case map_of kvs field of None \<Rightarrow> PNone | Some v \<Rightarrow> row_value lib v)"
  proof (cases "map_of kvs field")
    case None
    then show ?thesis by (simp add: convert_value_def)
  next
    case (Some v)
    then have "(field, v) \<in> set kvs" by (rule map_of_SomeD)
    with assms have "convert_value lib v = Inr (row_value lib v)" by (blast intro: convert_value_ok)
    with Some show ?thesis by simp
  qed
qed

subsection \<open>Loading\<close>

lemma in_keys: "k \<in> fst ` set kvs \<longleftrightarrow> map_of kvs k \<noteq> None"
  by (simp add: map_of_eq_None_iff)

lemma comms_of_dict:
  "comms_of (PDict kvs) =
     (case map_of kvs k_Communications of
        None \<Rightarrow> Inr []
      | Some c \<Rightarrow> ebind (str_in k_results c) (\<lambda>has_results.
           if \<not> has_results then Inr [] else ebind (str_subscript c k_results) py_iter))"
  by (simp add: comms_of_def in_keys split: option.splits)

lemma comms_of_well_shaped:
  assumes "well_shaped_parent kvs"
  shows "comms_of (PDict kvs) = Inr (nested_results kvs)"
proof (cases "map_of kvs k_Communications")
  case None
  then show ?thesis by (simp add: comms_of_dict nested_results_def)
next
  case (Some c)
  with assms obtain cd where c: "c = PDict cd"
    by (cases c) (simp_all add: well_shaped_parent_def)
  show ?thesis
  proof (cases "map_of cd k_results")
    case None
    with Some c show ?thesis by (simp add: comms_of_dict nested_results_def in_keys)
  next
    case (Some r)
    with assms \<open>map_of kvs k_Communications = Some c\<close> c obtain xs where "r = PList xs"
      by (cases r) (simp_all add: well_shaped_parent_def)
    with Some \<open>map_of kvs k_Communications = Some c\<close> c show ?thesis
      by (simp add: comms_of_dict nested_results_def in_keys)
  qed
qed

lemma separate_dicts:
  "separate (map PDict rows) ol cl =
     ebind (collect (map (\<lambda>kvs. comms_of (PDict kvs)) rows)) (\<lambda>css.
       Inr (ol @ map (\<lambda>kvs. PDict (filter (\<lambda>kv. fst kv \<noteq> k_Communications) kvs)) rows, cl @ concat css))"
proof (induction rows arbitrary: ol cl)
  case Nil
  then show ?case by simp
next
  case (Cons kvs rows)
  show ?case
  proof (cases "comms_of (PDict kvs)")
    case (Inl e)
    then show ?thesis by simp
  next
    case (Inr cs)
    show ?thesis
    proof (cases "collect (map (\<lambda>kvs. comms_of (PDict kvs)) rows)")
      case (Inl e)
      with Inr show ?thesis by (simp add: Cons.IH)
    next
      case (Inr css)
      with \<open>comms_of (PDict kvs) = Inr cs\<close> show ?thesis by (simp add: Cons.IH)
    qed
  qed
qed

lemma separate_well_shaped:
  assumes "list_all well_shaped_parent rows"
  shows "separate (map PDict rows) [] [] =
     Inr (map (\<lambda>kvs. PDict (filter (\<lambda>kv. fst kv \<noteq> k_Communications) kvs)) rows,
          concat (map nested_results rows))"
proof -
  have "collect (map (\<lambda>kvs. comms_of (PDict kvs)) rows) = Inr (map nested_results rows)"
    using assms by (intro collect_map_Inr comms_of_well_shaped) (simp add: list_all_iff)
  then show ?thesis by (simp add: separate_dicts)
qed

lemma is_dict_conv: "is_dict v \<longleftrightarrow> (\<exists>kvs. v = PDict kvs)"
  by (cases v) simp_all

lemma list_all_is_dict: "list_all is_dict xs \<Longrightarrow> \<exists>rows. xs = map PDict rows"
proof (induction xs)
  case Nil
  then show ?case by simp
next
  case (Cons x xs)
  then obtain rows kvs where "xs = map PDict rows" "x = PDict kvs"
    by (auto simp: is_dict_conv)
  then have "x # xs = map PDict (kvs # rows)" by simp
  then show ?case by (rule exI)
qed

lemma extract_records_not_dict:
  "\<not> list_all is_dict xs \<Longrightarrow> extract_records lib sch xs = Inl AttributeError"
proof (induction xs arbitrary: sch)
  case Nil
  then show ?case by simp
next
  case (Cons x xs)
  then show ?case by (cases x) simp_all
qed

lemma extract_schema_is_dict:
  "list_all is_dict xs \<Longrightarrow> \<exists>sch. extract_schema lib xs = Inr sch"
  using list_all_is_dict [of xs] by (auto simp: extract_schema_dicts)

lemma load_json_data:
  assumes "fs (json_path self) = Some text" and "json_load lib text = Loaded (PDict doc)"
    and "map_of doc k_d = Some (PDict d)" and "map_of d k_results = Some (PList orgs)" and "orgs \<noteq> []"
  shows "load_json lib self fs =
     ebind (separate orgs [] []) (\<lambda>(org_list, comm_list).
       ebind (extract_schema lib org_list) (\<lambda>os.
       ebind (extract_schema lib comm_list) (\<lambda>cs.
         Inr (self\<lparr>org_schema := os, comm_schema := cs,
                   org_records := org_list, comm_records := comm_list\<rparr>))))"
  using assms by (simp add: load_json_def)

lemma load_json_Inr:
  assumes "load_json lib self fs = Inr self1"
  shows "\<exists>os cs ol cl. self1 = self\<lparr>org_schema := os, comm_schema := cs, org_records := ol, comm_records := cl\<rparr>"
  using assms
  by (auto simp: load_json_def ebind_eq_Inr split: option.splits load_result.splits if_splits prod.splits)

lemma load_json_paths:
  assumes "load_json lib self fs = Inr self1"
  shows "mdb_path self1 = mdb_path self" and "template_path self1 = template_path self"
  using load_json_Inr [OF assms] by auto

lemma create_mdb_no_template:
  assumes "files w (mdb_path self) \<noteq> None" and "template_path self = None \<or> template_path self = Some []"
  shows "create_mdb self w = (Inl (RuntimeError no_template_msg), w\<lparr>files := (files w)(mdb_path self := None)\<rparr>)"
  using assms by (auto simp: create_mdb_def Let_def)

lemma convert_load_fails: "load_json lib self (files w) = Inl e \<Longrightarrow> convert lib self w = (Inl e, w)"
  by (simp add: convert_def)

lemma not_iso_short: "length s < 10 \<Longrightarrow> \<not> isoformat_basic s"
  by (simp add: isoformat_basic_def iso_date_def)

lemma load_acme_parsed:
  "json_load example_lib doc_acme = Loaded (PDict [(k_d, PDict [(k_results, PList (map PDict [acme_parent]))])])"
  by (simp add: load_acme acme_parent_def)

lemma load_json_acme:
  "load_json example_lib (init path_in path_out None) [path_in \<mapsto> doc_acme] = Inr acme_loaded"
proof -
  have t1: "infer_type example_lib (PStr (ustr ''Acme'')) = TEXT255"
    by (simp add: infer_type_def is_datetime_def example_lib_def not_iso_short replace_char_def ustr_def)
  have t2: "infer_type example_lib (PStr (ustr ''email'')) = TEXT255"
    by (simp add: infer_type_def is_datetime_def example_lib_def not_iso_short replace_char_def ustr_def)
  have t3: "infer_type example_lib (PInt 1) = INTEGER"
    by (simp add: infer_type_def)
  have keys: "ustr ''Id'' \<noteq> k_metadata" "ustr ''Name'' \<noteq> k_metadata" "ustr ''OrgId'' \<noteq> k_metadata"
    "ustr ''Type'' \<noteq> k_metadata" "ustr ''Id'' \<noteq> k_Communications" "ustr ''Name'' \<noteq> k_Communications"
    "ustr ''Name'' \<noteq> ustr ''Id''" "ustr ''Type'' \<noteq> ustr ''OrgId''" "k_Communications \<noteq> ustr ''Id''"
    "k_Communications \<noteq> ustr ''Name''"
    by (simp_all add: ustr_def key_defs)
  show ?thesis
    by (simp add: load_json_def init_def load_acme comms_of_def extract_schema_def t1 t2 t3 keys acme_loaded_def)
qed

lemma load_json_cong:
  "fs (json_path self) = fs' (json_path self) \<Longrightarrow> load_json lib self fs = load_json lib self fs'"
  by (simp add: load_json_def)

lemma separate_prefix:
  "separate (map PDict rows @ rest) ol cl =
     ebind (collect (map (\<lambda>kvs. comms_of (PDict kvs)) rows)) (\<lambda>css.
       separate rest (ol @ map (\<lambda>kvs. PDict (filter (\<lambda>kv. fst kv \<noteq> k_Communications) kvs)) rows)
         (cl @ concat css))"
proof (induction rows arbitrary: ol cl)
  case Nil
  then show ?case by simp
next
  case (Cons kvs rows)
  show ?case
  proof (cases "comms_of (PDict kvs)")
    case (Inl e)
    then show ?thesis by simp
  next
    case (Inr cs)
    show ?thesis
    proof (cases "collect (map (\<lambda>kvs. comms_of (PDict kvs)) rows)")
      case (Inl e)
      with Inr show ?thesis by (simp add: Cons.IH)
    next
      case (Inr css)
      with \<open>comms_of (PDict kvs) = Inr cs\<close> show ?thesis by (simp add: Cons.IH)
    qed
  qed
qed

lemma path_out_in: "path_out \<noteq> path_in"
  by (simp add: path_in_def path_out_def ustr_def)

lemma load_comm_null: "json_load example_lib doc_comm_null =
   Loaded (PDict [(k_d, PDict [(k_results, PList [PDict [(ustr ''Id'', PInt 1), (k_Communications, PNone)]])])])"
  by (simp add: example_lib_def doc_comm_null_def parse_defs key_defs)

lemma load_nan: "json_load example_lib doc_nan =
   Loaded (PDict [(k_d, PDict [(k_results, PList [PDict [(ustr ''a'', PFloat float_nan)]])])])"
  by (simp add: example_lib_def doc_nan_def parse_defs key_defs)

subsection \<open>The errors of loading\<close>

lemma dict_get_Inl: "dict_get v k d = Inl e \<Longrightarrow> e = AttributeError"
  by (cases v) simp_all

lemma py_iter_Inl: "py_iter v = Inl e \<Longrightarrow> e = TypeError"
  by (cases v) simp_all

lemma str_in_Inl: "str_in k v = Inl e \<Longrightarrow> e = TypeError"
  by (cases v) simp_all

lemma str_subscript_Inl: "str_subscript v k = Inl e \<Longrightarrow> e = TypeError \<or> e = KeyError"
  by (cases v) (simp_all split: option.splits)

lemma ebind_eq_Inl: "ebind m f = Inl e \<longleftrightarrow> m = Inl e \<or> (\<exists>x. m = Inr x \<and> f x = Inl e)"
  by (cases m) simp_all

lemma comms_of_Inl: "comms_of org = Inl e \<Longrightarrow> e = TypeError \<or> e = KeyError"
  by (auto simp: comms_of_def ebind_eq_Inl split: if_splits
           dest: str_in_Inl str_subscript_Inl py_iter_Inl)

lemma dict_items_Inl: "dict_items v = Inl e \<Longrightarrow> e = AttributeError"
  by (cases v) simp_all

lemma separate_Inl:
  "separate orgs ol cl = Inl e \<Longrightarrow> e = AttributeError \<or> e = TypeError \<or> e = KeyError"
proof (induction orgs arbitrary: ol cl)
  case Nil
  then show ?case by simp
next
  case (Cons org orgs)
  then show ?case
    by (auto simp: ebind_eq_Inl Let_def dest: dict_items_Inl comms_of_Inl)
qed

lemma extract_records_Inl: "extract_records lib sch xs = Inl e \<Longrightarrow> e = AttributeError"
proof (induction xs arbitrary: sch)
  case Nil
  then show ?case by simp
next
  case (Cons x xs)
  then show ?case by (auto simp: ebind_eq_Inl dest: dict_items_Inl)
qed

lemma load_json_Inl:
  assumes "load_json lib self fs = Inl e"
  shows "e = NotFoundError (json_path self) \<or> e = ParseError (json_path self) \<or> e = MissingDataError
     \<or> e = AttributeError \<or> e = TypeError \<or> e = KeyError \<or> (\<exists>x. e = Propagated x)"
proof (cases "fs (json_path self)")
  case None
  with assms show ?thesis by (simp add: load_json_def NotFoundError_def)
next
  case (Some content)
  show ?thesis
  proof (cases "json_load lib content")
    case JSONDecodeError
    with assms Some show ?thesis by (simp add: load_json_def ParseError_def)
  next
    case (Raised x)
    with assms Some show ?thesis by (auto simp: load_json_def)
  next
    case (Loaded doc)
    show ?thesis
    proof (cases "dict_get doc k_d (PDict [])")
      case (Inl a)
      with assms Some Loaded have "e = a" by (simp add: load_json_def)
      with dict_get_Inl [OF Inl] show ?thesis by simp
    next
      case d: (Inr d)
      show ?thesis
      proof (cases "dict_get d k_results (PList [])")
        case (Inl a)
        with assms Some Loaded d have "e = a" by (simp add: load_json_def)
        with dict_get_Inl [OF Inl] show ?thesis by simp
      next
        case data: (Inr data)
        show ?thesis
        proof (cases "truthy data")
          case False
          with assms Some Loaded d data show ?thesis
            by (simp add: load_json_def MissingDataError_def)
        next
          case True
          show ?thesis
          proof (cases "py_iter data")
            case (Inl a)
            with assms Some Loaded d data True have "e = a" by (simp add: load_json_def)
            with py_iter_Inl [OF Inl] show ?thesis by simp
          next
            case orgs: (Inr orgs)
            show ?thesis
            proof (cases "separate orgs [] []")
              case (Inl a)
              with assms Some Loaded d data True orgs have "e = a" by (simp add: load_json_def)
              with separate_Inl [OF Inl] show ?thesis by auto
            next
              case (Inr p)
              obtain ol cl where p: "p = (ol, cl)" by (cases p)
              show ?thesis
              proof (cases "extract_schema lib ol")
                case (Inl a)
                with assms Some Loaded d data True orgs Inr p have "e = a" by (simp add: load_json_def)
                with extract_records_Inl [of lib "[]" ol a] Inl show ?thesis
                  by (simp add: extract_schema_def)
              next
                case os: (Inr os)
                show ?thesis
                proof (cases "extract_schema lib cl")
                  case (Inl a)
                  with assms Some Loaded d data True orgs Inr p os have "e = a" by (simp add: load_json_def)
                  with extract_records_Inl [of lib "[]" cl a] Inl show ?thesis
                    by (simp add: extract_schema_def)
                next
                  case cs: (Inr cs)
                  with assms Some Loaded d data True orgs Inr p os show ?thesis
                    by (simp add: load_json_def)
                qed
              qed
            qed
          qed
        qed
      qed
    qed
  qed
qed

lemma message_heads:
  "hd no_template_msg = 77"
  "hd (ustr ''JSON file not found: '' @ p) = 74"
  "hd (ustr ''Invalid JSON format in '' @ p) = 73"
  "hd (ustr ''No 'results' found in JSON'') = 78"
  by (simp_all add: no_template_msg_def ustr_def)

lemma load_json_not_template:
  assumes "load_json lib self fs = Inl e"
  shows "e \<noteq> RuntimeError no_template_msg"
proof
  assume e: "e = RuntimeError no_template_msg"
  from load_json_Inl [OF assms] e
  consider "no_template_msg = ustr ''JSON file not found: '' @ json_path self"
    | "no_template_msg = ustr ''Invalid JSON format in '' @ json_path self"
    | "no_template_msg = ustr ''No 'results' found in JSON''"
    unfolding NotFoundError_def ParseError_def MissingDataError_def by auto
  then show False
  proof cases
    case 1
    then have "hd no_template_msg = hd (ustr ''JSON file not found: '' @ json_path self)" by simp
    then show False unfolding message_heads by simp
  next
    case 2
    then have "hd no_template_msg = hd (ustr ''Invalid JSON format in '' @ json_path self)" by simp
    then show False unfolding message_heads by simp
  next
    case 3
    then have "hd no_template_msg = hd (ustr ''No 'results' found in JSON'')" by simp
    then show False unfolding message_heads by simp
  qed
qed

subsection \<open>The records of a loading that returns\<close>

lemma comms_of_table:
  "comms_of (PDict kvs) =
     (case map_of kvs k_Communications of
        None \<Rightarrow> Inr []
      | Some c \<Rightarrow>
          (case c of
             PDict cd \<Rightarrow> (case map_of cd k_results of None \<Rightarrow> Inr [] | Some r \<Rightarrow> py_iter r)
           | PList ys \<Rightarrow> if PStr k_results \<in> set ys then Inl TypeError else Inr []
           | PStr s \<Rightarrow> if is_substr k_results s then Inl TypeError else Inr []
           | _ \<Rightarrow> Inl TypeError))"
proof (cases "map_of kvs k_Communications")
  case None
  then show ?thesis by (simp add: comms_of_dict)
next
  case (Some c)
  then show ?thesis
    by (cases c) (simp_all add: comms_of_dict in_keys split: option.splits)
qed

lemma is_dict_PStr_map: "list_all is_dict (map (\<lambda>x. PStr (f x)) xs) \<longleftrightarrow> xs = []"
  by (cases xs) simp_all

lemma comms_of_children:
  assumes "comms_of (PDict kvs) = Inr cs" and "list_all is_dict cs"
  shows "cs = nested_results kvs"
proof (cases "map_of kvs k_Communications")
  case None
  with assms show ?thesis by (simp add: comms_of_table nested_results_def)
next
  case (Some c)
  show ?thesis
  proof (cases c)
    case (PDict cd)
    show ?thesis
    proof (cases "map_of cd k_results")
      case None
      with assms Some PDict show ?thesis by (simp add: comms_of_table nested_results_def)
    next
      case r: (Some r)
      with assms Some PDict have it: "py_iter r = Inr cs" by (simp add: comms_of_table)
      show ?thesis
      proof (cases r)
        case (PList xs)
        with it Some PDict r show ?thesis by (simp add: nested_results_def)
      next
        case (PDict m)
        with it assms(2) have "cs = []" by (auto simp: is_dict_PStr_map)
        with Some \<open>c = PDict cd\<close> r PDict show ?thesis by (simp add: nested_results_def)
      next
        case (PStr t)
        with it assms(2) have "cs = []" by (auto simp: is_dict_PStr_map)
        with Some \<open>c = PDict cd\<close> r PStr show ?thesis by (simp add: nested_results_def)
      qed (use it in simp_all)
    qed
  qed (use assms Some in \<open>simp_all add: comms_of_table nested_results_def split: if_splits\<close>)
qed

lemma separate_Inr:
  "separate orgs ol cl = Inr (ol', cl') \<Longrightarrow>
     \<exists>rows css. orgs = map PDict rows \<and> length css = length rows
       \<and> (\<forall>i < length rows. comms_of (PDict (rows ! i)) = Inr (css ! i))
       \<and> ol' = ol @ map (\<lambda>kvs. PDict (filter (\<lambda>kv. fst kv \<noteq> k_Communications) kvs)) rows
       \<and> cl' = cl @ concat css"
proof (induction orgs arbitrary: ol cl)
  case Nil
  then show ?case by simp
next
  case (Cons org orgs)
  from Cons.prems obtain kvs cs where org: "org = PDict kvs" and cs: "comms_of org = Inr cs"
    and rest: "separate orgs (ol @ [PDict (filter (\<lambda>kv. fst kv \<noteq> k_Communications) kvs)]) (cl @ cs) = Inr (ol', cl')"
    by (cases org) (auto simp: ebind_eq_Inr Let_def)
  from Cons.IH [OF rest] obtain rows css where ih: "orgs = map PDict rows" "length css = length rows"
      "\<forall>i < length rows. comms_of (PDict (rows ! i)) = Inr (css ! i)"
      "ol' = (ol @ [PDict (filter (\<lambda>kv. fst kv \<noteq> k_Communications) kvs)])
           @ map (\<lambda>kvs. PDict (filter (\<lambda>kv. fst kv \<noteq> k_Communications) kvs)) rows"
      "cl' = (cl @ cs) @ concat css"
    by blast
  have nth: "\<forall>i < length (kvs # rows). comms_of (PDict ((kvs # rows) ! i)) = Inr ((cs # css) ! i)"
    using ih(3) cs org by (auto simp: nth_Cons')
  show ?case
    by (rule exI [of _ "kvs # rows"], rule exI [of _ "cs # css"])
       (use org ih nth in simp)
qed

lemma concat_children:
  assumes "length css = length rows"
    and "\<forall>i < length rows. comms_of (PDict (rows ! i)) = Inr (css ! i)"
    and "list_all is_dict (concat css)"
  shows "css = map nested_results rows"
proof (rule nth_equalityI)
  show "length css = length (map nested_results rows)" using assms(1) by simp
next
  fix i assume i: "i < length css"
  then have "css ! i \<in> set css" by simp
  with assms(3) have "list_all is_dict (css ! i)" by (auto simp: list_all_iff)
  moreover have "comms_of (PDict (rows ! i)) = Inr (css ! i)" using assms(1,2) i by simp
  ultimately have "css ! i = nested_results (rows ! i)" by (rule comms_of_children [rotated])
  then show "css ! i = map nested_results rows ! i" using assms(1) i by simp
qed

lemma extract_schema_Inr_dicts: "extract_schema lib xs = Inr sch \<Longrightarrow> list_all is_dict xs"
  using extract_records_not_dict [of xs lib "[]"] by (auto simp: extract_schema_def)

lemma py_iter_dicts:
  assumes "py_iter data = Inr (map PDict rows)" and "truthy data"
  shows "data = PList (map PDict rows) \<and> rows \<noteq> []"
proof (cases data)
  case (PList xs)
  with assms show ?thesis by auto
next
  case (PDict m)
  with assms show ?thesis by (cases m; cases rows) auto
next
  case (PStr t)
  with assms show ?thesis by (cases t; cases rows) auto
qed (use assms in simp_all)

lemma load_json_returns:
  assumes "fs (json_path self) = Some content" and "json_load lib content = Loaded doc"
    and "load_json lib self fs = Inr self'"
  shows "\<exists>d rows. dict_get doc k_d (PDict []) = Inr d
      \<and> dict_get d k_results (PList []) = Inr (PList (map PDict rows)) \<and> rows \<noteq> []
      \<and> org_records self' = map (\<lambda>kvs. PDict (filter (\<lambda>kv. fst kv \<noteq> k_Communications) kvs)) rows
      \<and> comm_records self' = concat (map nested_results rows)"
proof -
  from assms obtain d data orgs ol cl os cs where
    d: "dict_get doc k_d (PDict []) = Inr d" and data: "dict_get d k_results (PList []) = Inr data"
    and t: "truthy data" and orgs: "py_iter data = Inr orgs" and sep: "separate orgs [] [] = Inr (ol, cl)"
    and os: "extract_schema lib ol = Inr os" and cs: "extract_schema lib cl = Inr cs"
    and self': "self' = self\<lparr>org_schema := os, comm_schema := cs, org_records := ol, comm_records := cl\<rparr>"
    by (auto simp: load_json_def ebind_eq_Inr split: if_splits prod.splits)
  from separate_Inr [OF sep] obtain rows css where r: "orgs = map PDict rows" "length css = length rows"
      "\<forall>i < length rows. comms_of (PDict (rows ! i)) = Inr (css ! i)"
      "ol = map (\<lambda>kvs. PDict (filter (\<lambda>kv. fst kv \<noteq> k_Communications) kvs)) rows"
      "cl = concat css"
    by auto
  from extract_schema_Inr_dicts [OF cs] r(5) have "list_all is_dict (concat css)" by simp
  from concat_children [OF r(2,3) this] have css: "css = map nested_results rows" .
  from py_iter_dicts [OF orgs [unfolded r(1)] t] have "data = PList (map PDict rows)" "rows \<noteq> []" by simp_all
  with d data r(4,5) css self' show ?thesis by auto
qed

subsection \<open>Reading back an encoded string\<close>








subsection \<open>Reading back an encoded number\<close>













declare nat_digits.simps [simp del]

lemma nat_digits_small: "n < 10 \<Longrightarrow> nat_digits n = [48 + n]"
  by (subst nat_digits.simps) simp












subsection \<open>Reading back an encoded value\<close>

lemma skip_ws_start [simp]: "value_start c \<Longrightarrow> skip_ws (c # cs) = c # cs"
  by (simp add: skip_ws_def value_start_def)

lemma skip_ws_space [simp]: "skip_ws (32 # s) = skip_ws s"
  by (simp add: skip_ws_def is_ws_def)

lemma skip_ws_delim [simp]: "skip_ws (93 # s) = 93 # s" "skip_ws (125 # s) = 125 # s" "skip_ws (44 # s) = 44 # s"
  "skip_ws (58 # s) = 58 # s"
  by (simp_all add: skip_ws_def is_ws_def)

















lemma value_start_simps: "value_start c \<Longrightarrow> c \<noteq> 93 \<and> c \<noteq> 125 \<and> c \<noteq> 44 \<and> \<not> is_ws c"
  by (simp add: value_start_def)

lemma skip_ws_quote [simp]: "skip_ws (34 # s) = 34 # s"
  by (simp add: skip_ws_def is_ws_def)









lemma delim_simps [simp]: "delim (93 # s)" "delim (125 # s)" "delim (44 # s)" "delim []"
  by (simp_all add: delim_def)






lemma float_roundtrips_mono: "float_roundtrips lib False x \<Longrightarrow> float_roundtrips lib nan x"
  by (simp add: float_roundtrips_def split: if_splits)





section \<open>Claims\<close>

text \<open>
  C1. The Schema Inferrer types a column from its first sampled value by this precedence: a
  boolean gives \<^verbatim>\<open>YESNO\<close>; otherwise an integer gives \<^verbatim>\<open>INTEGER\<close> (a boolean is an integer for
  \<^verbatim>\<open>isinstance\<close>, and is tested first); otherwise a float gives \<^verbatim>\<open>DOUBLE\<close>; otherwise a
  \<^verbatim>\<open>datetime\<close>, or a text that \<^verbatim>\<open>datetime.fromisoformat\<close> accepts once \<^verbatim>\<open>Z\<close> is replaced by
  \<^verbatim>\<open>+00:00\<close> (so a trailing \<^verbatim>\<open>Z\<close> is accepted), gives \<^verbatim>\<open>DATETIME\<close>; anything else (text, null,
  arrays, objects) gives \<^verbatim>\<open>TEXT(255)\<close>. With a library that accepts
  \<^verbatim>\<open>2024-01-15T10:30:00+00:00\<close> and rejects \<^verbatim>\<open>hello\<close>, the text \<^verbatim>\<open>2024-01-15T10:30:00Z\<close> gives
  \<^verbatim>\<open>DATETIME\<close> and \<^verbatim>\<open>hello\<close> gives \<^verbatim>\<open>TEXT(255)\<close>. The five type names are distinct.
\<close>

theorem infer_type_precedence:
  "infer_type lib v =
     (case v of
        PBool b \<Rightarrow> YESNO
      | PInt i \<Rightarrow> INTEGER
      | PFloat x \<Rightarrow> DOUBLE
      | PDatetime t \<Rightarrow> DATETIME
      | PStr s \<Rightarrow> if fromisoformat lib (replace_char 90 (ustr ''+00:00'') s) then DATETIME else TEXT255
      | PNone \<Rightarrow> TEXT255
      | PList xs \<Rightarrow> TEXT255
      | PDict kvs \<Rightarrow> TEXT255)
   \<and> (isinstance_int (PBool b) \<and> infer_type lib (PBool b) = YESNO)
   \<and> (90 \<notin> set t \<longrightarrow>
        infer_type lib (PStr (t @ [90])) =
          (if fromisoformat lib (t @ ustr ''+00:00'') then DATETIME else TEXT255))
   \<and> (fromisoformat lib (ustr ''2024-01-15T10:30:00+00:00'') \<longrightarrow>
        infer_type lib (PStr (ustr ''2024-01-15T10:30:00Z'')) = DATETIME)
   \<and> (\<not> fromisoformat lib (ustr ''hello'') \<longrightarrow> infer_type lib (PStr (ustr ''hello'')) = TEXT255)
   \<and> infer_type lib PNone = TEXT255
   \<and> TEXT255 = ustr ''TEXT(255)''
   \<and> distinct [YESNO, INTEGER, DOUBLE, DATETIME, TEXT255]"
proof -
  have cases: "infer_type lib v =
     (case v of
        PBool b \<Rightarrow> YESNO
      | PInt i \<Rightarrow> INTEGER
      | PFloat x \<Rightarrow> DOUBLE
      | PDatetime t \<Rightarrow> DATETIME
      | PStr s \<Rightarrow> if fromisoformat lib (replace_char 90 (ustr ''+00:00'') s) then DATETIME else TEXT255
      | PNone \<Rightarrow> TEXT255
      | PList xs \<Rightarrow> TEXT255
      | PDict kvs \<Rightarrow> TEXT255)" for v
    by (cases v) (simp_all add: infer_type_def is_datetime_def)
  have z: "replace_char 90 (ustr ''+00:00'') (t @ [90]) = t @ ustr ''+00:00''" if "90 \<notin> set t"
    using that by (simp add: replace_char_append replace_char_absent) (simp add: replace_char_def)
  have hello: "replace_char 90 (ustr ''+00:00'') (ustr ''hello'') = ustr ''hello''"
    by (simp add: replace_char_def ustr_def)
  have p2: "isinstance_int (PBool b)" and p3: "infer_type lib (PBool b) = YESNO"
    by (simp_all add: cases)
  have p4: "90 \<notin> set t \<longrightarrow>
        infer_type lib (PStr (t @ [90])) =
          (if fromisoformat lib (t @ ustr ''+00:00'') then DATETIME else TEXT255)"
    by (simp add: cases z)
  have p5: "fromisoformat lib (ustr ''2024-01-15T10:30:00+00:00'') \<longrightarrow>
        infer_type lib (PStr (ustr ''2024-01-15T10:30:00Z'')) = DATETIME"
    by (simp add: cases ex_ts)
  have p6: "\<not> fromisoformat lib (ustr ''hello'') \<longrightarrow> infer_type lib (PStr (ustr ''hello'')) = TEXT255"
    by (simp add: cases hello)
  have p7: "infer_type lib PNone = TEXT255"
    by (simp add: cases)
  show ?thesis
    by (intro conjI cases p2 p3 p4 p5 p6 p7 TEXT255_def distinct_names)
qed

theorem infer_type_precedence_witness:
  "infer_type example_lib (PStr (ustr ''2024-01-15T10:30:00Z'')) = DATETIME
   \<and> infer_type example_lib (PStr (ustr ''hello'')) = TEXT255
   \<and> infer_type example_lib (PStr (ustr ''2024-01-15T10:30:00'' @ [90])) = DATETIME
   \<and> infer_type example_lib (PBool True) = YESNO
   \<and> infer_type example_lib (PInt 1) = INTEGER"
proof -
  have f1: "fromisoformat example_lib (ustr ''2024-01-15T10:30:00+00:00'')"
    by (simp add: example_lib_def iso1)
  have f2: "\<not> fromisoformat example_lib (ustr ''hello'')"
    by (simp add: example_lib_def iso2)
  have f3: "ustr ''2024-01-15T10:30:00'' @ ustr ''+00:00'' = ustr ''2024-01-15T10:30:00+00:00''"
    by (simp add: ustr_def)
  have f4: "90 \<notin> set (ustr ''2024-01-15T10:30:00'')"
    by (simp add: ustr_def)
  show ?thesis
    using infer_type_precedence [of example_lib "PInt 1" True "ustr ''2024-01-15T10:30:00''"] f1 f2 f4
    by (simp add: f3)
qed

text \<open>
  C3. For every Schema and every Raw Record (a \<^verbatim>\<open>dict\<close> whose values are \<^verbatim>\<open>datetime\<close>s or
  values the JSON encoder takes), the Type Normalizer returns a row with one value per column,
  in the Schema's column order: null where the record lacks the column's key; null and the
  values of the scalar kinds (text, integer, float, boolean, timestamp) as they are; the JSON
  text of a composite. The declared column types play no part: two Schemas with the same
  column names give the same row.
\<close>

theorem normalize_record_row:
  assumes "\<forall>kv \<in> set kvs. isinstance_datetime (snd kv) \<or> serializable (snd kv)"
  shows "\<exists>row. normalize_record lib (PDict kvs) sch = Inr row
     \<and> length row = length sch
     \<and> (\<forall>i < length sch.
           (map_of kvs (fst (sch ! i)) = None \<longrightarrow> row ! i = PNone)
         \<and> (\<forall>v. map_of kvs (fst (sch ! i)) = Some v \<longrightarrow>
               (v = PNone \<or> isinstance_str v \<or> isinstance_int v \<or> isinstance_float v
                \<or> isinstance_bool v \<or> isinstance_datetime v \<longrightarrow> row ! i = v)
             \<and> (\<not> (v = PNone \<or> isinstance_str v \<or> isinstance_int v \<or> isinstance_float v
                \<or> isinstance_bool v \<or> isinstance_datetime v) \<longrightarrow> row ! i = PStr (encode lib v))))
     \<and> (\<forall>sch'. map fst sch' = map fst sch \<longrightarrow>
           normalize_record lib (PDict kvs) sch' = Inr row)"
proof -
  let ?row = "map (\<lambda>field. case map_of kvs field of None \<Rightarrow> PNone | Some v \<Rightarrow> row_value lib v) (map fst sch)"
  have ok: "\<And>k v. (k, v) \<in> set kvs \<Longrightarrow> isinstance_datetime v \<or> serializable v"
    using assms by force
  have run: "normalize_record lib (PDict kvs) s = 
      Inr (map (\<lambda>field. case map_of kvs field of None \<Rightarrow> PNone | Some v \<Rightarrow> row_value lib v) (map fst s))" for s
    by (rule normalize_record_dict) (rule ok)
  have scalar: "v = PNone \<or> isinstance_str v \<or> isinstance_int v \<or> isinstance_float v
                \<or> isinstance_bool v \<or> isinstance_datetime v \<Longrightarrow> row_value lib v = v" for v
    by (cases v) (simp_all add: row_value_def)
  have composite: "\<not> (v = PNone \<or> isinstance_str v \<or> isinstance_int v \<or> isinstance_float v
                \<or> isinstance_bool v \<or> isinstance_datetime v) \<Longrightarrow> row_value lib v = PStr (encode lib v)" for v
    by (cases v) (simp_all add: row_value_def)
  have "normalize_record lib (PDict kvs) sch = Inr ?row" by (rule run)
  moreover have "length ?row = length sch" by simp
  moreover have "\<forall>i < length sch.
           (map_of kvs (fst (sch ! i)) = None \<longrightarrow> ?row ! i = PNone)
         \<and> (\<forall>v. map_of kvs (fst (sch ! i)) = Some v \<longrightarrow>
               (v = PNone \<or> isinstance_str v \<or> isinstance_int v \<or> isinstance_float v
                \<or> isinstance_bool v \<or> isinstance_datetime v \<longrightarrow> ?row ! i = v)
             \<and> (\<not> (v = PNone \<or> isinstance_str v \<or> isinstance_int v \<or> isinstance_float v
                \<or> isinstance_bool v \<or> isinstance_datetime v) \<longrightarrow> ?row ! i = PStr (encode lib v)))"
    using scalar composite by (auto simp del: isinstance_int.simps)
  moreover have "\<forall>sch'. map fst sch' = map fst sch \<longrightarrow> normalize_record lib (PDict kvs) sch' = Inr ?row"
    by (simp add: run)
  ultimately show ?thesis by blast
qed

theorem normalize_record_row_witness:
  "\<exists>row. normalize_record example_lib
     (PDict [(ustr ''a'', PInt 1), (ustr ''b'', PNone), (ustr ''c'', PList [PInt 1, PStr (ustr ''x'')]),
             (ustr ''t'', PDatetime (Datetime 2024 1 15 10 30 0 0 None)), (ustr ''f'', PFloat 0x3FF8000000000000)])
     [(ustr ''t'', TEXT255), (ustr ''missing'', INTEGER), (ustr ''c'', YESNO), (ustr ''b'', DOUBLE),
      (ustr ''a'', DATETIME), (ustr ''f'', YESNO)] = Inr row
   \<and> length row = 6
   \<and> row ! 0 = PDatetime (Datetime 2024 1 15 10 30 0 0 None)
   \<and> row ! 1 = PNone
   \<and> row ! 2 = PStr (ustr ''[1, '' @ [34, 120, 34, 93])
   \<and> row ! 3 = PNone
   \<and> row ! 4 = PInt 1
   \<and> row ! 5 = PFloat 0x3FF8000000000000"
proof -
  let ?kvs = "[(ustr ''a'', PInt 1), (ustr ''b'', PNone), (ustr ''c'', PList [PInt 1, PStr (ustr ''x'')]),
             (ustr ''t'', PDatetime (Datetime 2024 1 15 10 30 0 0 None)), (ustr ''f'', PFloat 0x3FF8000000000000)]"
  let ?sch = "[(ustr ''t'', TEXT255), (ustr ''missing'', INTEGER), (ustr ''c'', YESNO), (ustr ''b'', DOUBLE),
      (ustr ''a'', DATETIME), (ustr ''f'', YESNO)]"
  have h: "\<forall>kv \<in> set ?kvs. isinstance_datetime (snd kv) \<or> serializable (snd kv)"
    by simp
  from normalize_record_row [OF h, of example_lib ?sch]
  obtain row where run: "normalize_record example_lib (PDict ?kvs) ?sch = Inr row"
    and len: "length row = length ?sch"
    and vals: "\<forall>i < length ?sch.
           (map_of ?kvs (fst (?sch ! i)) = None \<longrightarrow> row ! i = PNone)
         \<and> (\<forall>v. map_of ?kvs (fst (?sch ! i)) = Some v \<longrightarrow>
               (v = PNone \<or> isinstance_str v \<or> isinstance_int v \<or> isinstance_float v
                \<or> isinstance_bool v \<or> isinstance_datetime v \<longrightarrow> row ! i = v)
             \<and> (\<not> (v = PNone \<or> isinstance_str v \<or> isinstance_int v \<or> isinstance_float v
                \<or> isinstance_bool v \<or> isinstance_datetime v) \<longrightarrow> row ! i = PStr (encode example_lib v)))"
    by blast
  have enc: "encode example_lib (PList [PInt 1, PStr (ustr ''x'')]) = ustr ''[1, '' @ [34, 120, 34, 93]"
    by (simp add: int_repr_def nat_digits_small encode_str_def escape_char_def ustr_def)
  have "length row = 6" using len by simp
  moreover have "row ! 0 = PDatetime (Datetime 2024 1 15 10 30 0 0 None)" using vals [rule_format, of 0] by (simp add: ustr_def)
  moreover have "row ! 1 = PNone" using vals [rule_format, of 1] by (simp add: ustr_def)
  moreover have "row ! 2 = PStr (ustr ''[1, '' @ [34, 120, 34, 93])" using vals [rule_format, of 2] enc by (simp add: ustr_def)
  moreover have "row ! 3 = PNone" using vals [rule_format, of 3] by (simp add: ustr_def)
  moreover have "row ! 4 = PInt 1" using vals [rule_format, of 4] by (simp add: ustr_def)
  moreover have "row ! 5 = PFloat 0x3FF8000000000000" using vals [rule_format, of 5] by (simp add: ustr_def)
  ultimately show ?thesis using run by blast
qed

text \<open>
  C2. First value wins. Take a record list in which the key \<open>k\<close> (not the metadata key) first
  occurs in the record \<open>first\<close>, with the value \<open>v\<close>, and occurs again in a later record with a
  text value \<open>w\<close>. The Schema has exactly one column \<open>k\<close>, typed from \<open>v\<close> alone (\<^verbatim>\<open>INTEGER\<close> when
  \<open>v\<close> is an integer), whatever the later records hold; and the Normalized Row of the later
  record carries \<open>w\<close> itself in that column, with no error.
\<close>

theorem first_value_wins:
  assumes "k \<noteq> k_metadata" and "k \<notin> fst ` set (concat pre)" and "map_of first k = Some v"
    and "later \<in> set post" and "map_of later k = Some w" and "isinstance_str w"
    and "\<forall>kv \<in> set later. isinstance_datetime (snd kv) \<or> serializable (snd kv)"
  shows "\<exists>sch row i. extract_schema lib (map PDict (pre @ first # post)) = Inr sch
     \<and> map_of sch k = Some (infer_type lib v)
     \<and> (isinstance_int v \<and> \<not> isinstance_bool v \<longrightarrow> map_of sch k = Some INTEGER)
     \<and> i < length sch \<and> sch ! i = (k, infer_type lib v)
     \<and> (\<forall>j < length sch. fst (sch ! j) = k \<longrightarrow> j = i)
     \<and> normalize_record lib (PDict later) sch = Inr row
     \<and> length row = length sch
     \<and> row ! i = w"
proof -
  let ?sch = "extract_items lib [] (concat (pre @ first # post))"
  have run: "extract_schema lib (map PDict (pre @ first # post)) = Inr ?sch"
    by (rule extract_schema_dicts)
  have none: "map_of (concat pre) k = None"
    using assms(2) by (simp add: map_of_eq_None_iff)
  have "map_of (concat (pre @ first # post)) k = Some v"
    using none assms(3) by (simp add: map_add_def)
  then have kty: "map_of ?sch k = Some (infer_type lib v)"
    using assms(1) by (simp add: map_of_extract_items)
  have kint: "isinstance_int v \<and> \<not> isinstance_bool v \<longrightarrow> infer_type lib v = INTEGER"
    by (cases v) (simp_all add: infer_type_def)
  have dist: "distinct (map fst ?sch)"
    by (simp add: keys_extract_items)
  from kty have "(k, infer_type lib v) \<in> set ?sch" by (rule map_of_SomeD)
  then obtain i where i: "i < length ?sch" "?sch ! i = (k, infer_type lib v)"
    by (auto simp: in_set_conv_nth)
  have uniq: "\<forall>j < length ?sch. fst (?sch ! j) = k \<longrightarrow> j = i"
  proof (intro allI impI)
    fix j assume j: "j < length ?sch" "fst (?sch ! j) = k"
    then have "map fst ?sch ! j = map fst ?sch ! i" using i by simp
    moreover have "j < length (map fst ?sch)" "i < length (map fst ?sch)" using i j by simp_all
    ultimately show "j = i" using dist nth_eq_iff_index_eq by blast
  qed
  let ?row = "map (\<lambda>field. case map_of later field of None \<Rightarrow> PNone | Some u \<Rightarrow> row_value lib u) (map fst ?sch)"
  have ok: "\<And>k u. (k, u) \<in> set later \<Longrightarrow> isinstance_datetime u \<or> serializable u"
    using assms(7) by force
  have run_row: "normalize_record lib (PDict later) ?sch = Inr ?row"
    by (rule normalize_record_dict) (rule ok)
  have len_row: "length ?row = length ?sch"
    by simp
  have "row_value lib w = w"
    using assms(6) by (cases w) (simp_all add: row_value_def)
  then have rowi: "?row ! i = w"
    using i assms(5) by simp
  have c3: "isinstance_int v \<and> \<not> isinstance_bool v \<longrightarrow> map_of ?sch k = Some INTEGER"
    using kty kint by simp
  show ?thesis
    by (rule exI [of _ ?sch], rule exI [of _ ?row], rule exI [of _ i])
       (intro conjI run kty c3 i uniq run_row len_row rowi)
qed

theorem first_value_wins_witness:
  "\<exists>sch row. extract_schema example_lib
       [PDict [(ustr ''a'', PInt 7)], PDict [(ustr ''b'', PNone), (ustr ''a'', PStr (ustr ''seven''))]] = Inr sch
     \<and> sch = [(ustr ''a'', INTEGER), (ustr ''b'', TEXT255)]
     \<and> normalize_record example_lib (PDict [(ustr ''b'', PNone), (ustr ''a'', PStr (ustr ''seven''))]) sch = Inr row
     \<and> row ! 0 = PStr (ustr ''seven'')"
proof -
  let ?first = "[(ustr ''a'', PInt 7)]"
  let ?later = "[(ustr ''b'', PNone), (ustr ''a'', PStr (ustr ''seven''))]"
  have h1: "ustr ''a'' \<noteq> k_metadata" by (simp add: ustr_def k_metadata_def)
  have h2: "ustr ''a'' \<notin> fst ` set (concat ([] :: (pystr \<times> pyval) list list))" by simp
  have h3: "map_of ?first (ustr ''a'') = Some (PInt 7)" by simp
  have h4: "?later \<in> set [?later]" by simp
  have h5: "map_of ?later (ustr ''a'') = Some (PStr (ustr ''seven''))" by (simp add: ustr_def)
  have h6: "isinstance_str (PStr (ustr ''seven''))" by simp
  have h7: "\<forall>kv \<in> set ?later. isinstance_datetime (snd kv) \<or> serializable (snd kv)" by simp
  have sch: "extract_schema example_lib (map PDict ([] @ ?first # [?later])) = Inr [(ustr ''a'', INTEGER), (ustr ''b'', TEXT255)]"
    by (simp add: extract_schema_def infer_type_def is_datetime_def ustr_def k_metadata_def)
  from first_value_wins [OF h1 h2 h3 h4 h5 h6 h7, of example_lib]
  obtain s row i where r: "extract_schema example_lib (map PDict ([] @ ?first # [?later])) = Inr s"
     "i < length s" "s ! i = (ustr ''a'', infer_type example_lib (PInt 7))"
     "normalize_record example_lib (PDict ?later) s = Inr row" "row ! i = PStr (ustr ''seven'')"
    by blast
  from r(1) sch have s: "s = [(ustr ''a'', INTEGER), (ustr ''b'', TEXT255)]" by simp
  have "i = 0"
  proof (rule ccontr)
    assume "i \<noteq> 0"
    with r(2) s have "i = 1" by simp
    with r(3) s show False by (simp add: ustr_def)
  qed
  with r s show ?thesis by simp
qed

text \<open>
  C8. Schema inference is deterministic. On a list of records (each with its own field order)
  the Inferrer returns one Schema, and it is a function of that list alone: the columns are
  the keys other than the metadata key in the order of their first encounter, and each column
  has the type of the first value met for its key. So two runs on the same record list return
  the same Schema, in particular the same column order.
\<close>

theorem extract_schema_deterministic:
  "\<exists>sch. extract_schema lib (map PDict rows) = Inr sch
     \<and> map fst sch = first_encounter (filter (\<lambda>k. k \<noteq> k_metadata) (map fst (concat rows)))
     \<and> map snd sch = map (\<lambda>k. infer_type lib (the (map_of (concat rows) k))) (map fst sch)
     \<and> (\<forall>sch1 sch2. extract_schema lib (map PDict rows) = Inr sch1
            \<and> extract_schema lib (map PDict rows) = Inr sch2 \<longrightarrow> sch1 = sch2 \<and> map fst sch1 = map fst sch2)"
proof -
  let ?sch = "extract_items lib [] (concat rows)"
  have run: "extract_schema lib (map PDict rows) = Inr ?sch"
    by (rule extract_schema_dicts)
  have keys: "map fst ?sch = first_encounter (filter (\<lambda>k. k \<noteq> k_metadata) (map fst (concat rows)))"
    by (rule keys_extract_items)
  have dist: "distinct (map fst ?sch)"
    by (simp add: keys)
  have types: "map snd ?sch = map (\<lambda>k. infer_type lib (the (map_of (concat rows) k))) (map fst ?sch)"
  proof (rule nth_equalityI)
    show "length (map snd ?sch) = length (map (\<lambda>k. infer_type lib (the (map_of (concat rows) k))) (map fst ?sch))"
      by simp
  next
    fix i assume "i < length (map snd ?sch)"
    then have i: "i < length ?sch" by simp
    obtain k t where kt: "?sch ! i = (k, t)" by (cases "?sch ! i")
    with i have mem: "(k, t) \<in> set ?sch" by (metis nth_mem)
    with dist have "map_of ?sch k = Some t" by (rule map_of_is_SomeI)
    then have "t = infer_type lib (the (map_of (concat rows) k))"
      by (auto simp: map_of_extract_items split: if_splits)
    with i kt show "map snd ?sch ! i = map (\<lambda>k. infer_type lib (the (map_of (concat rows) k))) (map fst ?sch) ! i"
      by simp
  qed
  have same: "\<forall>sch1 sch2. extract_schema lib (map PDict rows) = Inr sch1
            \<and> extract_schema lib (map PDict rows) = Inr sch2 \<longrightarrow> sch1 = sch2 \<and> map fst sch1 = map fst sch2"
    by auto
  show ?thesis
    by (rule exI [of _ ?sch]) (intro conjI run keys types same)
qed

theorem extract_schema_deterministic_witness:
  "\<exists>sch. extract_schema example_lib
       [PDict [(ustr ''b'', PInt 1), (ustr ''a'', PBool True)],
        PDict [(ustr ''a'', PStr (ustr ''x'')), (k_metadata, PDict []), (ustr ''c'', PNone)]] = Inr sch
     \<and> map fst sch = [ustr ''b'', ustr ''a'', ustr ''c'']
     \<and> map snd sch = [INTEGER, YESNO, TEXT255]"
proof -
  let ?rows = "[[(ustr ''b'', PInt 1), (ustr ''a'', PBool True)],
        [(ustr ''a'', PStr (ustr ''x'')), (k_metadata, PDict []), (ustr ''c'', PNone)]]"
  from extract_schema_deterministic [of example_lib ?rows]
  obtain sch where r: "extract_schema example_lib (map PDict ?rows) = Inr sch"
     "map fst sch = first_encounter (filter (\<lambda>k. k \<noteq> k_metadata) (map fst (concat ?rows)))"
     "map snd sch = map (\<lambda>k. infer_type example_lib (the (map_of (concat ?rows) k))) (map fst sch)"
    by blast
  have k: "map fst sch = [ustr ''b'', ustr ''a'', ustr ''c'']"
    unfolding r(2) by (simp add: first_encounter_def ustr_def k_metadata_def)
  have "map snd sch = [INTEGER, YESNO, TEXT255]"
    unfolding r(3) k by (simp add: infer_type_def is_datetime_def ustr_def k_metadata_def)
  with r(1) k show ?thesis by auto
qed

text \<open>
  C5. When loading returns on an input whose record list at \<^verbatim>\<open>d.results\<close> is a non-empty array
  of objects, the number of columns of the parent Schema is the number of distinct keys over
  all parent records, the children field \<^verbatim>\<open>Communications\<close> and the metadata key
  \<^verbatim>\<open>__metadata\<close> not counted.
\<close>

theorem parent_schema_column_count:
  assumes "fs (json_path self) = Some text" and "json_load lib text = Loaded (PDict doc)"
    and "map_of doc k_d = Some (PDict d)" and "map_of d k_results = Some (PList (map PDict rows))"
    and "rows \<noteq> []" and "load_json lib self fs = Inr self'"
  shows "length (org_schema self') = card (set (map fst (concat rows)) - {k_Communications, k_metadata})"
proof -
  let ?parents = "map (\<lambda>kvs. filter (\<lambda>kv. fst kv \<noteq> k_Communications) kvs) rows"
  have data: "load_json lib self fs =
     ebind (separate (map PDict rows) [] []) (\<lambda>(org_list, comm_list).
       ebind (extract_schema lib org_list) (\<lambda>os.
       ebind (extract_schema lib comm_list) (\<lambda>cs.
         Inr (self\<lparr>org_schema := os, comm_schema := cs,
                   org_records := org_list, comm_records := comm_list\<rparr>))))"
    using assms(1-5) by (intro load_json_data) simp_all
  from assms(6) obtain ol cl where sep: "separate (map PDict rows) [] [] = Inr (ol, cl)"
    unfolding data by (auto simp: ebind_eq_Inr)
  then have ol: "ol = map PDict ?parents"
    by (auto simp: separate_dicts ebind_eq_Inr comp_def)
  have eso: "extract_schema lib ol = Inr (extract_items lib [] (concat ?parents))"
    unfolding ol by (rule extract_schema_dicts)
  from assms(6) have "org_schema self' = extract_items lib [] (concat ?parents)"
    unfolding data sep by (auto simp: ebind_eq_Inr eso)
  then have "length (org_schema self') = card (set (map fst (concat ?parents)) - {k_metadata})"
    by (simp add: length_extract_items)
  also have "set (map fst (concat ?parents)) = set (map fst (concat rows)) - {k_Communications}"
    by auto
  also have "set (map fst (concat rows)) - {k_Communications} - {k_metadata}
      = set (map fst (concat rows)) - {k_Communications, k_metadata}"
    by auto
  finally show ?thesis .
qed

theorem parent_schema_column_count_witness:
  "length (org_schema acme_loaded) = card (set (map fst (concat [acme_parent])) - {k_Communications, k_metadata})
   \<and> length (org_schema acme_loaded) = 2"
proof -
  have h1: "[path_in \<mapsto> doc_acme] (json_path (init path_in path_out None)) = Some doc_acme"
    by (simp add: init_def)
  have h3: "map_of [(k_d, PDict [(k_results, PList (map PDict [acme_parent]))])] k_d
      = Some (PDict [(k_results, PList (map PDict [acme_parent]))])"
    by simp
  have h4: "map_of [(k_results, PList (map PDict [acme_parent]))] k_results = Some (PList (map PDict [acme_parent]))"
    by simp
  have h5: "[acme_parent] \<noteq> []" by simp
  from parent_schema_column_count [where fs = "[path_in \<mapsto> doc_acme]"
      and self = "init path_in path_out None" and rows = "[acme_parent]",
      OF h1 load_acme_parsed h3 h4 h5 load_json_acme]
  show ?thesis by (simp add: acme_loaded_def)
qed

text \<open>
  C6, as stated, fails: on the top-level record \<^verbatim>\<open>{"Id":1,"Communications":null}\<close> the test
  \<^verbatim>\<open>"results" in org["Communications"]\<close> raises \<^verbatim>\<open>TypeError\<close>, and the Loader produces no Parent
  Record at all.
\<close>

theorem loader_null_children_counterexample:
  "json_load example_lib doc_comm_null =
     Loaded (PDict [(k_d, PDict [(k_results, PList [PDict [(ustr ''Id'', PInt 1), (k_Communications, PNone)]])])])
   \<and> separate [PDict [(ustr ''Id'', PInt 1), (k_Communications, PNone)]] [] [] = Inl TypeError
   \<and> load_json example_lib (init path_in path_out None) [path_in \<mapsto> doc_comm_null] = Inl TypeError"
proof -
  have k: "k_Communications \<noteq> ustr ''Id''"
    by (simp add: k_Communications_def ustr_def)
  have co: "comms_of (PDict [(ustr ''Id'', PInt 1), (k_Communications, PNone)]) = Inl TypeError"
    using k by (simp add: comms_of_table)
  have sep: "separate [PDict [(ustr ''Id'', PInt 1), (k_Communications, PNone)]] [] [] = Inl TypeError"
    by (simp add: co)
  have "load_json example_lib (init path_in path_out None) [path_in \<mapsto> doc_comm_null] = Inl TypeError"
    by (simp add: load_json_def init_def load_comm_null co)
  with sep show ?thesis
    by (simp only: load_comm_null simp_thms)
qed

text \<open>
  C6, amended. On every input on which loading returns, the record list at \<^verbatim>\<open>d.results\<close> is a
  non-empty array of objects; the Parent Records are, for each top-level record in order, the
  record without its \<^verbatim>\<open>Communications\<close> field (every other field as it was, in its place);
  and the Child Records are the elements of the nested arrays, unmodified and in order, where
  a record contributes the array under \<^verbatim>\<open>results\<close> of the object under its \<^verbatim>\<open>Communications\<close>
  when there is one, and nothing otherwise. Loading does return on an input whose records
  each hold under \<^verbatim>\<open>Communications\<close> nothing, or an object that holds under \<^verbatim>\<open>results\<close> nothing
  or an array, when every child is an object; it raises \<^verbatim>\<open>AttributeError\<close> in schema inference
  when some child is not.
\<close>

theorem loader_splits_records:
  assumes "fs (json_path self) = Some content" and "json_load lib content = Loaded doc"
  shows "(\<forall>self'. load_json lib self fs = Inr self' \<longrightarrow>
           (\<exists>d rows. dict_get doc k_d (PDict []) = Inr d
              \<and> dict_get d k_results (PList []) = Inr (PList (map PDict rows)) \<and> rows \<noteq> []
              \<and> org_records self' = map (\<lambda>kvs. PDict (filter (\<lambda>kv. fst kv \<noteq> k_Communications) kvs)) rows
              \<and> comm_records self' = concat (map nested_results rows)))
     \<and> (\<forall>doc' d rows. doc = PDict doc' \<and> map_of doc' k_d = Some (PDict d)
           \<and> map_of d k_results = Some (PList (map PDict rows)) \<and> rows \<noteq> []
           \<and> list_all well_shaped_parent rows \<longrightarrow>
             separate (map PDict rows) [] [] =
               Inr (map (\<lambda>kvs. PDict (filter (\<lambda>kv. fst kv \<noteq> k_Communications) kvs)) rows,
                    concat (map nested_results rows))
           \<and> (list_all is_dict (concat (map nested_results rows)) \<longrightarrow>
                (\<exists>os cs. load_json lib self fs =
                   Inr (self\<lparr>org_schema := os, comm_schema := cs,
                     org_records := map (\<lambda>kvs. PDict (filter (\<lambda>kv. fst kv \<noteq> k_Communications) kvs)) rows,
                     comm_records := concat (map nested_results rows)\<rparr>)))
           \<and> (\<not> list_all is_dict (concat (map nested_results rows)) \<longrightarrow>
                load_json lib self fs = Inl AttributeError))
     \<and> (\<forall>kvs k. map_of (filter (\<lambda>kv. fst kv \<noteq> k_Communications) kvs) k =
          (if k = k_Communications then None else map_of (kvs :: (pystr \<times> pyval) list) k))
     \<and> (\<forall>kvs c xs. map_of kvs k_Communications = Some (PDict c) \<and> map_of c k_results = Some (PList xs)
           \<longrightarrow> nested_results kvs = xs \<and> comms_of (PDict kvs) = Inr xs)
     \<and> (\<forall>kvs. \<not> (\<exists>c xs. map_of kvs k_Communications = Some (PDict c)
                         \<and> map_of c k_results = Some (PList xs))
           \<longrightarrow> nested_results kvs = [])"
proof -
  have general: "\<forall>self'. load_json lib self fs = Inr self' \<longrightarrow>
           (\<exists>d rows. dict_get doc k_d (PDict []) = Inr d
              \<and> dict_get d k_results (PList []) = Inr (PList (map PDict rows)) \<and> rows \<noteq> []
              \<and> org_records self' = map (\<lambda>kvs. PDict (filter (\<lambda>kv. fst kv \<noteq> k_Communications) kvs)) rows
              \<and> comm_records self' = concat (map nested_results rows))"
    using load_json_returns [where fs = fs and self = self, OF assms] by blast
  have shaped: "separate (map PDict rows) [] [] =
               Inr (map (\<lambda>kvs. PDict (filter (\<lambda>kv. fst kv \<noteq> k_Communications) kvs)) rows,
                    concat (map nested_results rows))
           \<and> (list_all is_dict (concat (map nested_results rows)) \<longrightarrow>
                (\<exists>os cs. load_json lib self fs =
                   Inr (self\<lparr>org_schema := os, comm_schema := cs,
                     org_records := map (\<lambda>kvs. PDict (filter (\<lambda>kv. fst kv \<noteq> k_Communications) kvs)) rows,
                     comm_records := concat (map nested_results rows)\<rparr>)))
           \<and> (\<not> list_all is_dict (concat (map nested_results rows)) \<longrightarrow>
                load_json lib self fs = Inl AttributeError)"
    if h: "doc = PDict doc'" "map_of doc' k_d = Some (PDict d)"
       "map_of d k_results = Some (PList (map PDict rows))" "rows \<noteq> []" "list_all well_shaped_parent rows"
    for doc' d rows
  proof -
    let ?parents = "map (\<lambda>kvs. PDict (filter (\<lambda>kv. fst kv \<noteq> k_Communications) kvs)) rows"
    let ?children = "concat (map nested_results rows)"
    have data: "load_json lib self fs =
       ebind (separate (map PDict rows) [] []) (\<lambda>(org_list, comm_list).
         ebind (extract_schema lib org_list) (\<lambda>os.
         ebind (extract_schema lib comm_list) (\<lambda>cs.
           Inr (self\<lparr>org_schema := os, comm_schema := cs,
                     org_records := org_list, comm_records := comm_list\<rparr>))))"
      using assms h by (intro load_json_data) simp_all
    have sep: "separate (map PDict rows) [] [] = Inr (?parents, ?children)"
      using h(5) by (rule separate_well_shaped)
    have "?parents = map PDict (map (\<lambda>kvs. filter (\<lambda>kv. fst kv \<noteq> k_Communications) kvs) rows)"
      by simp
    then obtain os where os: "extract_schema lib ?parents = Inr os"
      using extract_schema_dicts by metis
    have ok: "\<exists>os cs. load_json lib self fs =
         Inr (self\<lparr>org_schema := os, comm_schema := cs, org_records := ?parents, comm_records := ?children\<rparr>)"
      if dicts: "list_all is_dict ?children"
    proof -
      obtain cs where cs: "extract_schema lib ?children = Inr cs"
        using extract_schema_is_dict [OF dicts] by blast
      show ?thesis
        unfolding data sep by (intro exI [of _ os] exI [of _ cs]) (simp add: os cs)
    qed
    have bad: "load_json lib self fs = Inl AttributeError" if "\<not> list_all is_dict ?children"
    proof -
      have "extract_schema lib ?children = Inl AttributeError"
        unfolding extract_schema_def using that by (rule extract_records_not_dict)
      then show ?thesis
        unfolding data sep by (simp add: os)
    qed
    show ?thesis
      using ok bad by (intro conjI impI sep) blast+
  qed
  have frame: "\<forall>kvs k. map_of (filter (\<lambda>kv. fst kv \<noteq> k_Communications) kvs) k =
          (if k = k_Communications then None else map_of (kvs :: (pystr \<times> pyval) list) k)"
  proof (intro allI)
    fix kvs :: "(pystr \<times> pyval) list" and k
    show "map_of (filter (\<lambda>kv. fst kv \<noteq> k_Communications) kvs) k =
          (if k = k_Communications then None else map_of kvs k)"
      by (induction kvs) auto
  qed
  have nested: "\<forall>kvs c xs. map_of kvs k_Communications = Some (PDict c) \<and> map_of c k_results = Some (PList xs)
           \<longrightarrow> nested_results kvs = xs \<and> comms_of (PDict kvs) = Inr xs"
    by (simp add: nested_results_def comms_of_table)
  have shaped_all: "\<forall>doc' d rows. doc = PDict doc' \<and> map_of doc' k_d = Some (PDict d)
           \<and> map_of d k_results = Some (PList (map PDict rows)) \<and> rows \<noteq> []
           \<and> list_all well_shaped_parent rows \<longrightarrow>
             separate (map PDict rows) [] [] =
               Inr (map (\<lambda>kvs. PDict (filter (\<lambda>kv. fst kv \<noteq> k_Communications) kvs)) rows,
                    concat (map nested_results rows))
           \<and> (list_all is_dict (concat (map nested_results rows)) \<longrightarrow>
                (\<exists>os cs. load_json lib self fs =
                   Inr (self\<lparr>org_schema := os, comm_schema := cs,
                     org_records := map (\<lambda>kvs. PDict (filter (\<lambda>kv. fst kv \<noteq> k_Communications) kvs)) rows,
                     comm_records := concat (map nested_results rows)\<rparr>)))
           \<and> (\<not> list_all is_dict (concat (map nested_results rows)) \<longrightarrow>
                load_json lib self fs = Inl AttributeError)"
    using shaped by blast
  have other: "\<forall>kvs. \<not> (\<exists>c xs. map_of kvs k_Communications = Some (PDict c)
                         \<and> map_of c k_results = Some (PList xs))
           \<longrightarrow> nested_results kvs = []"
    by (auto simp: nested_results_def split: option.splits pyval.splits)
  show ?thesis
    by (intro conjI general shaped_all frame nested other)
qed

theorem loader_splits_records_witness:
  "list_all well_shaped_parent [acme_parent]
   \<and> list_all is_dict (concat (map nested_results [acme_parent]))
   \<and> (\<exists>os cs. load_json example_lib (init path_in path_out None) [path_in \<mapsto> doc_acme] =
         Inr ((init path_in path_out None)\<lparr>org_schema := os, comm_schema := cs,
           org_records := [PDict [(ustr ''Id'', PInt 1), (ustr ''Name'', PStr (ustr ''Acme''))]],
           comm_records := [PDict [(ustr ''OrgId'', PInt 1), (ustr ''Type'', PStr (ustr ''email''))]]\<rparr>))
   \<and> org_records acme_loaded = [PDict [(ustr ''Id'', PInt 1), (ustr ''Name'', PStr (ustr ''Acme''))]]
   \<and> comm_records acme_loaded = [PDict [(ustr ''OrgId'', PInt 1), (ustr ''Type'', PStr (ustr ''email''))]]"
proof -
  let ?fs = "[path_in \<mapsto> doc_acme]" and ?self = "init path_in path_out None"
  let ?doc = "PDict [(k_d, PDict [(k_results, PList (map PDict [acme_parent]))])]"
  have h1: "?fs (json_path ?self) = Some doc_acme"
    by (simp add: init_def)
  have h6: "list_all well_shaped_parent [acme_parent]"
    by (simp add: well_shaped_parent_def acme_parent_def ustr_def key_defs)
  have nested: "nested_results acme_parent = [PDict [(ustr ''OrgId'', PInt 1), (ustr ''Type'', PStr (ustr ''email''))]]"
    by (simp add: nested_results_def acme_parent_def ustr_def key_defs)
  have parent: "filter (\<lambda>kv. fst kv \<noteq> k_Communications) acme_parent = [(ustr ''Id'', PInt 1), (ustr ''Name'', PStr (ustr ''Acme''))]"
    by (simp add: acme_parent_def ustr_def key_defs)
  have h7: "list_all is_dict (concat (map nested_results [acme_parent]))"
    by (simp add: nested)
  note inst = loader_splits_records [where fs = ?fs and self = ?self and lib = example_lib
      and content = doc_acme and doc = ?doc, OF h1 load_acme_parsed]
  from inst have shaped: "\<exists>os cs. load_json example_lib ?self ?fs =
         Inr (?self\<lparr>org_schema := os, comm_schema := cs,
           org_records := map (\<lambda>kvs. PDict (filter (\<lambda>kv. fst kv \<noteq> k_Communications) kvs)) [acme_parent],
           comm_records := concat (map nested_results [acme_parent])\<rparr>)"
    using h6 h7 by (elim conjE allE [where x = "[(k_d, PDict [(k_results, PList (map PDict [acme_parent]))])]"]
         allE [where x = "[(k_results, PList (map PDict [acme_parent]))]"] allE [where x = "[acme_parent]"])
      simp
  from inst load_json_acme obtain d rows where g: "dict_get ?doc k_d (PDict []) = Inr d"
      "dict_get d k_results (PList []) = Inr (PList (map PDict rows))"
      "org_records acme_loaded = map (\<lambda>kvs. PDict (filter (\<lambda>kv. fst kv \<noteq> k_Communications) kvs)) rows"
      "comm_records acme_loaded = concat (map nested_results rows)"
    by blast
  from g(1,2) have "map PDict rows = map PDict [acme_parent]" by auto
  then have "rows = [acme_parent]" by (cases rows) auto
  with g(3,4) have recs: "org_records acme_loaded = [PDict [(ustr ''Id'', PInt 1), (ustr ''Name'', PStr (ustr ''Acme''))]]"
    "comm_records acme_loaded = [PDict [(ustr ''OrgId'', PInt 1), (ustr ''Type'', PStr (ustr ''email''))]]"
    by (simp_all add: nested parent)
  from shaped h6 h7 recs show ?thesis by (simp add: nested parent)
qed

text \<open>
  C4, as stated, fails twice. On the well-formed input \<^verbatim>\<open>{"d":{"results":5}}\<close> the path
  \<^verbatim>\<open>d.results\<close> does not resolve to a non-empty array, and loading raises \<^verbatim>\<open>TypeError\<close> (from
  the loop \<^verbatim>\<open>for org in data\<close>), not the missing-data error. And the input
  \<^verbatim>\<open>{"d":{"results":[{"a":NaN}]}}\<close> is not well-formed JSON (the reader of the JSON grammar
  rejects it), yet \<^verbatim>\<open>json.load\<close> takes it and loading returns.
\<close>

theorem load_json_errors_counterexample:
  "json_load example_lib doc_scalar_results = Loaded (PDict [(k_d, PDict [(k_results, PInt 5)])])
   \<and> load_json example_lib (init path_in path_out None) [path_in \<mapsto> doc_scalar_results] = Inl TypeError
   \<and> Inl TypeError \<noteq> (Inl MissingDataError :: pyerror + converter)
   \<and> json_loads example_float_of_str False doc_nan = None
   \<and> load_json example_lib (init path_in path_out None) [path_in \<mapsto> doc_nan] =
       Inr ((init path_in path_out None)
             \<lparr>org_schema := [(ustr ''a'', DOUBLE)], comm_schema := [],
              org_records := [PDict [(ustr ''a'', PFloat float_nan)]], comm_records := []\<rparr>)"
proof -
  have a: "load_json example_lib (init path_in path_out None) [path_in \<mapsto> doc_scalar_results] = Inl TypeError"
    by (simp add: load_scalar load_json_def init_def)
  have b: "Inl TypeError \<noteq> (Inl MissingDataError :: pyerror + converter)"
    by (simp add: MissingDataError_def)
  have c: "json_loads example_float_of_str False doc_nan = None"
    by (simp add: doc_nan_def parse_defs)
  have k: "ustr ''a'' \<noteq> k_metadata" "ustr ''a'' \<noteq> k_Communications"
    by (simp_all add: ustr_def key_defs)
  have co: "comms_of (PDict [(ustr ''a'', PFloat float_nan)]) = Inr []"
    using k by (simp add: comms_of_table)
  have d: "load_json example_lib (init path_in path_out None) [path_in \<mapsto> doc_nan] =
       Inr ((init path_in path_out None)
             \<lparr>org_schema := [(ustr ''a'', DOUBLE)], comm_schema := [],
              org_records := [PDict [(ustr ''a'', PFloat float_nan)]], comm_records := []\<rparr>)"
    using k by (simp add: load_json_def init_def load_nan co extract_schema_def infer_type_def)
  show ?thesis
    by (intro conjI load_scalar a b c d)
qed

text \<open>
  C4, amended. Loading fails with \<open>NotFoundError\<close> when the input file does not exist; with
  \<open>ParseError\<close> when \<^verbatim>\<open>json.load\<close> raises \<^verbatim>\<open>JSONDecodeError\<close> on it, while another exception of
  \<^verbatim>\<open>json.load\<close> (\<^verbatim>\<open>UnicodeDecodeError\<close>, \<^verbatim>\<open>ValueError\<close>, \<^verbatim>\<open>RecursionError\<close>) leaves the Loader
  uncaught; and with \<open>MissingDataError\<close> when the document is an object that has no member
  \<^verbatim>\<open>d\<close>, or whose \<^verbatim>\<open>d\<close> is an object that has no member \<^verbatim>\<open>results\<close> or whose \<^verbatim>\<open>results\<close> is the
  empty array (or another value that tests false). A run whose loading fails returns that
  error and leaves the files and the store as they were; in particular the input
  \<^verbatim>\<open>{"d":{"results":[]}}\<close> ends the run with \<open>MissingDataError\<close> and the world untouched.
\<close>

theorem load_json_errors:
  "(fs (json_path self) = None \<longrightarrow> load_json lib self fs = Inl (NotFoundError (json_path self)))
   \<and> (fs (json_path self) = Some content \<and> json_load lib content = JSONDecodeError \<longrightarrow>
        load_json lib self fs = Inl (ParseError (json_path self)))
   \<and> (\<forall>x. fs (json_path self) = Some content \<and> json_load lib content = Raised x \<longrightarrow>
        load_json lib self fs = Inl (Propagated x))
   \<and> (fs (json_path self) = Some content \<and> json_load lib content = Loaded (PDict doc)
        \<and> (map_of doc k_d = None
           \<or> (\<exists>d. map_of doc k_d = Some (PDict d)
                \<and> (map_of d k_results = None \<or> map_of d k_results = Some (PList [])
                   \<or> (\<exists>r. map_of d k_results = Some r \<and> \<not> truthy r)))) \<longrightarrow>
        load_json lib self fs = Inl MissingDataError)
   \<and> (\<forall>e. load_json lib self (files w) = Inl e \<longrightarrow> convert lib self w = (Inl e, w))
   \<and> (files w (json_path self) = Some content
        \<and> json_load lib content = Loaded (PDict [(k_d, PDict [(k_results, PList [])])]) \<longrightarrow>
        convert lib self w = (Inl MissingDataError, w))"
proof -
  have p1: "fs (json_path self) = None \<longrightarrow> load_json lib self fs = Inl (NotFoundError (json_path self))"
    by (simp add: load_json_def NotFoundError_def)
  have p2: "fs (json_path self) = Some content \<and> json_load lib content = JSONDecodeError \<longrightarrow>
        load_json lib self fs = Inl (ParseError (json_path self))"
    by (simp add: load_json_def ParseError_def)
  have p2b: "\<forall>x. fs (json_path self) = Some content \<and> json_load lib content = Raised x \<longrightarrow>
        load_json lib self fs = Inl (Propagated x)"
    by (simp add: load_json_def)
  have p3: "fs (json_path self) = Some content \<and> json_load lib content = Loaded (PDict doc)
        \<and> (map_of doc k_d = None
           \<or> (\<exists>d. map_of doc k_d = Some (PDict d)
                \<and> (map_of d k_results = None \<or> map_of d k_results = Some (PList [])
                   \<or> (\<exists>r. map_of d k_results = Some r \<and> \<not> truthy r)))) \<longrightarrow>
        load_json lib self fs = Inl MissingDataError" for fs
    by (auto simp: load_json_def MissingDataError_def)
  have p4: "\<forall>e. load_json lib self (files w) = Inl e \<longrightarrow> convert lib self w = (Inl e, w)"
    by (simp add: convert_load_fails)
  have p5: "files w (json_path self) = Some content
        \<and> json_load lib content = Loaded (PDict [(k_d, PDict [(k_results, PList [])])]) \<longrightarrow>
        convert lib self w = (Inl MissingDataError, w)"
  proof
    assume a: "files w (json_path self) = Some content
        \<and> json_load lib content = Loaded (PDict [(k_d, PDict [(k_results, PList [])])])"
    then have "load_json lib self (files w) = Inl MissingDataError"
      by (simp add: load_json_def MissingDataError_def)
    then show "convert lib self w = (Inl MissingDataError, w)"
      by (rule convert_load_fails)
  qed
  show ?thesis
    by (intro conjI p1 p2 p2b p3 p4 p5)
qed

theorem load_json_errors_witness:
  "convert example_lib (init path_in path_out (Some (ustr ''blank.mdb'')))
      \<lparr>files = [path_in \<mapsto> doc_empty, path_out \<mapsto> ustr ''old''], executed = []\<rparr>
     = (Inl MissingDataError, \<lparr>files = [path_in \<mapsto> doc_empty, path_out \<mapsto> ustr ''old''], executed = []\<rparr>)
   \<and> load_json example_lib (init path_in path_out None) Map.empty = Inl (NotFoundError path_in)
   \<and> load_json example_lib (init path_in path_out None) [path_in \<mapsto> ustr ''{''] = Inl (ParseError path_in)"
proof -
  let ?self = "init path_in path_out (Some (ustr ''blank.mdb''))"
  let ?w = "\<lparr>files = [path_in \<mapsto> doc_empty, path_out \<mapsto> ustr ''old''], executed = []\<rparr>"
  have ne: "path_out \<noteq> path_in" by (simp add: path_in_def path_out_def ustr_def)
  have h1: "files ?w (json_path ?self) = Some doc_empty"
    using ne by (simp add: init_def)
  have bad: "json_load example_lib (ustr ''{'') = JSONDecodeError"
    by (simp add: example_lib_def parse_defs)
  have h2: "[path_in \<mapsto> ustr ''{''] (json_path (init path_in path_out None)) = Some (ustr ''{'')"
    by (simp add: init_def)
  have h3: "Map.empty (json_path (init path_in path_out None)) = (None :: pystr option)"
    by simp
  show ?thesis
    using load_json_errors [where fs = "files ?w" and self = "?self" and content = doc_empty and lib = example_lib
          and w = "?w"]
      load_json_errors [where fs = "[path_in \<mapsto> ustr ''{'']" and self = "init path_in path_out None"
          and content = "ustr ''{''" and lib = example_lib]
      load_json_errors [where fs = "Map.empty" and self = "init path_in path_out None" and lib = example_lib]
      h1 h2 h3 bad load_empty
    by (simp add: init_def)
qed




text \<open>
  C9. When the destination file exists and no template path is provided (\<^verbatim>\<open>None\<close> or the
  empty string), a run that fails with the missing-template error has deleted the destination
  file first: the world it leaves is the one it found without that file, so the output state
  has changed, and no statement has reached the store. The run takes this error path exactly
  when loading the input returns (a failing load ends the run before \<^verbatim>\<open>_create_mdb\<close>, with an
  error of its own); and \<^verbatim>\<open>_create_mdb\<close> alone deletes and then raises whatever the Loader did.
\<close>

theorem missing_template_deletes_output:
  assumes "files w (mdb_path self) \<noteq> None"
    and "template_path self = None \<or> template_path self = Some []"
  shows "(fst (convert lib self w) = Inl (RuntimeError no_template_msg)
           \<longleftrightarrow> (\<exists>self1. load_json lib self (files w) = Inr self1))
     \<and> (fst (convert lib self w) = Inl (RuntimeError no_template_msg) \<longrightarrow>
           snd (convert lib self w) = w\<lparr>files := (files w)(mdb_path self := None)\<rparr>
         \<and> files (snd (convert lib self w)) (mdb_path self) = None
         \<and> files (snd (convert lib self w)) \<noteq> files w
         \<and> executed (snd (convert lib self w)) = executed w)
     \<and> (\<forall>self1. load_json lib self (files w) = Inr self1 \<longrightarrow>
           convert lib self w =
             (Inl (RuntimeError no_template_msg), w\<lparr>files := (files w)(mdb_path self := None)\<rparr>))
     \<and> create_mdb self w =
           (Inl (RuntimeError no_template_msg), w\<lparr>files := (files w)(mdb_path self := None)\<rparr>)"
proof -
  let ?w' = "w\<lparr>files := (files w)(mdb_path self := None)\<rparr>"
  have c0: "create_mdb self w = (Inl (RuntimeError no_template_msg), ?w')"
    using assms by (rule create_mdb_no_template)
  have run: "convert lib self w = (Inl (RuntimeError no_template_msg), ?w')"
    if l: "load_json lib self (files w) = Inr self1" for self1
  proof -
    have paths: "mdb_path self1 = mdb_path self" "template_path self1 = template_path self"
      using load_json_paths [OF l] by simp_all
    have "create_mdb self1 w = (Inl (RuntimeError no_template_msg), ?w')"
      using create_mdb_no_template [of w self1] assms paths by simp
    then show ?thesis by (simp add: convert_def l)
  qed
  have fails: "fst (convert lib self w) \<noteq> Inl (RuntimeError no_template_msg)"
    if l: "load_json lib self (files w) = Inl e" for e
    using convert_load_fails [OF l] load_json_not_template [OF l] by simp
  have iff: "fst (convert lib self w) = Inl (RuntimeError no_template_msg)
           \<longleftrightarrow> (\<exists>self1. load_json lib self (files w) = Inr self1)"
  proof (cases "load_json lib self (files w)")
    case (Inl e)
    with fails [OF Inl] show ?thesis by simp
  next
    case (Inr self1)
    with run [OF Inr] show ?thesis by simp
  qed
  have ne: "(files w)(mdb_path self := None) \<noteq> files w"
  proof
    assume "(files w)(mdb_path self := None) = files w"
    then have "((files w)(mdb_path self := None)) (mdb_path self) = files w (mdb_path self)" by simp
    with assms(1) show False by simp
  qed
  have gone: "fst (convert lib self w) = Inl (RuntimeError no_template_msg) \<longrightarrow>
           snd (convert lib self w) = ?w'
         \<and> files (snd (convert lib self w)) (mdb_path self) = None
         \<and> files (snd (convert lib self w)) \<noteq> files w
         \<and> executed (snd (convert lib self w)) = executed w"
  proof
    assume "fst (convert lib self w) = Inl (RuntimeError no_template_msg)"
    with iff obtain self1 where "load_json lib self (files w) = Inr self1" by blast
    from run [OF this] ne show "snd (convert lib self w) = ?w'
         \<and> files (snd (convert lib self w)) (mdb_path self) = None
         \<and> files (snd (convert lib self w)) \<noteq> files w
         \<and> executed (snd (convert lib self w)) = executed w"
      by simp
  qed
  have all: "\<forall>self1. load_json lib self (files w) = Inr self1 \<longrightarrow>
           convert lib self w = (Inl (RuntimeError no_template_msg), ?w')"
    using run by blast
  show ?thesis
    by (intro conjI iff gone all c0)
qed

theorem missing_template_deletes_output_witness:
  "convert example_lib (init path_in path_out None) world_acme =
     (Inl (RuntimeError no_template_msg), \<lparr>files = [path_in \<mapsto> doc_acme], executed = []\<rparr>)"
proof -
  have h1: "files world_acme (mdb_path (init path_in path_out None)) \<noteq> None"
    by (simp add: world_acme_def init_def)
  have h2: "template_path (init path_in path_out None) = None \<or> template_path (init path_in path_out None) = Some []"
    by (simp add: init_def)
  have "load_json example_lib (init path_in path_out None) (files world_acme)
      = load_json example_lib (init path_in path_out None) [path_in \<mapsto> doc_acme]"
    using path_out_in by (intro load_json_cong) (simp add: world_acme_def init_def)
  then have h3: "load_json example_lib (init path_in path_out None) (files world_acme) = Inr acme_loaded"
    by (simp add: load_json_acme)
  have "(files world_acme)(path_out := None) = [path_in \<mapsto> doc_acme]"
    using path_out_in by (auto simp: world_acme_def fun_eq_iff)
  moreover have "convert example_lib (init path_in path_out None) world_acme =
     (Inl (RuntimeError no_template_msg),
      world_acme\<lparr>files := (files world_acme)(mdb_path (init path_in path_out None) := None)\<rparr>)"
    using missing_template_deletes_output [OF h1 h2, of example_lib] h3 by blast
  ultimately show ?thesis
    by (simp add: init_def world_acme_def)
qed

text \<open>
  C10. The Loader is not total on well-formed inputs with a non-empty record list. When a
  parent holds under \<^verbatim>\<open>Communications\<close> a value that is not an object and for which the test
  \<^verbatim>\<open>"results" in\<close> succeeds (a text with \<^verbatim>\<open>results\<close> as a substring, an array with the element
  \<^verbatim>\<open>"results"\<close>), and the parents before it are well shaped, loading raises \<^verbatim>\<open>TypeError\<close>, which
  is none of the three loading errors. The inputs
  \<^verbatim>\<open>{"d":{"results":[{"Id":1,"Communications":"my results"}]}}\<close> and
  \<^verbatim>\<open>{"d":{"results":[{"Id":1,"Communications":["results"]}]}}\<close> do so.
\<close>

theorem loader_type_error:
  assumes "fs (json_path self) = Some content" and "json_load lib content = Loaded (PDict doc)"
    and "map_of doc k_d = Some (PDict d)"
    and "map_of d k_results = Some (PList (map PDict pre @ PDict kvs # post))"
    and "list_all well_shaped_parent pre"
    and "map_of kvs k_Communications = Some c" and "\<not> is_dict c" and "str_in k_results c = Inr True"
  shows "load_json lib self fs = Inl TypeError
     \<and> comms_of (PDict kvs) = Inl TypeError
     \<and> TypeError \<notin> {NotFoundError (json_path self), ParseError (json_path self), MissingDataError}"
proof -
  have co: "comms_of (PDict kvs) = Inl TypeError"
    using assms(6-8) by (cases c) (simp_all add: comms_of_dict)
  have pre: "collect (map (\<lambda>kvs. comms_of (PDict kvs)) pre) = Inr (map nested_results pre)"
    using assms(5) by (intro collect_map_Inr comms_of_well_shaped) (simp add: list_all_iff)
  have sep: "separate (map PDict pre @ PDict kvs # post) [] [] = Inl TypeError"
    by (simp add: separate_prefix pre co)
  have run: "load_json lib self fs = Inl TypeError"
    using assms(1-4) by (simp add: load_json_def sep)
  have out: "TypeError \<notin> {NotFoundError (json_path self), ParseError (json_path self), MissingDataError}"
    by (simp add: NotFoundError_def ParseError_def MissingDataError_def)
  show ?thesis
    by (intro conjI run co out)
qed

theorem loader_type_error_witness:
  "load_json example_lib (init path_in path_out None) [path_in \<mapsto> doc_comm_string] = Inl TypeError
   \<and> load_json example_lib (init path_in path_out None) [path_in \<mapsto> doc_comm_array] = Inl TypeError"
proof -
  have s: "str_in k_results (PStr (ustr ''my results'')) = Inr True"
    by (simp add: k_results_def ustr_def)
  have a: "str_in k_results (PList [PStr k_results]) = Inr True"
    by simp
  have k: "k_Communications \<noteq> ustr ''Id''"
    by (simp add: k_Communications_def ustr_def)
  have 1: "load_json example_lib (init path_in path_out None) [path_in \<mapsto> doc_comm_string] = Inl TypeError"
    using loader_type_error [where fs = "[path_in \<mapsto> doc_comm_string]" and self = "init path_in path_out None"
        and lib = example_lib and content = doc_comm_string and pre = "[]" and post = "[]"
        and kvs = "[(ustr ''Id'', PInt 1), (k_Communications, PStr (ustr ''my results''))]"
        and c = "PStr (ustr ''my results'')", OF _ load_comm_string _ _ _ _ _ s] k
    by (simp add: init_def)
  have 2: "load_json example_lib (init path_in path_out None) [path_in \<mapsto> doc_comm_array] = Inl TypeError"
    using loader_type_error [where fs = "[path_in \<mapsto> doc_comm_array]" and self = "init path_in path_out None"
        and lib = example_lib and content = doc_comm_array and pre = "[]" and post = "[]"
        and kvs = "[(ustr ''Id'', PInt 1), (k_Communications, PList [PStr k_results])]"
        and c = "PList [PStr k_results]", OF _ load_comm_array _ _ _ _ _ a] k
    by (simp add: init_def)
  from 1 2 show ?thesis by simp
qed

end
